theory Spec2Isabelle
  imports Complex_Main "HOL-Library.Sublist"
begin

text \<open>
  The semantic grouping engine of the TabSorter browser extension: the processor that turns
  tab texts into embeddings behind an initialization state machine (RealAIProcessor, with
  the cache and the clustering loop of SimpleAIProcessor beside it), the greedy clustering
  of tabs by cosine similarity, the labels of the groups, and the domain grouping that the
  background worker falls back to. Each function of the JavaScript source is a function
  here, with the state it changes passed in and out and the errors it throws as values.
  What the code takes from the JavaScript engine and the browser, the arithmetic of numbers
  and the URL parser and string functions, is passed to these functions as a parameter.
\<close>

section \<open>Numbers\<close>

text \<open>
  A JavaScript number is an IEEE double, and every operation on doubles rounds. The code
  that computes with embeddings uses the number 0, \<open>+\<close>, \<open>*\<close>, \<open>/\<close>,
  \<open>Math.sqrt\<close>, the comparison \<open>>\<close>, the length of an array as a number, and the
  number that \<open>undefined\<close> becomes where an array is read past its end (NaN). These are
  the fields of an arithmetic over a type \<open>'n\<close> of numbers. The functions below take the
  arithmetic as their first argument; nothing is assumed of it, so what is proved of them
  for every arithmetic holds of the doubles with their rounding.
\<close>

record 'n arith =
  f_zero :: 'n
  f_nan :: 'n
  f_add :: "'n \<Rightarrow> 'n \<Rightarrow> 'n"
  f_mul :: "'n \<Rightarrow> 'n \<Rightarrow> 'n"
  f_div :: "'n \<Rightarrow> 'n \<Rightarrow> 'n"
  f_sqrt :: "'n \<Rightarrow> 'n"
  f_gt :: "'n \<Rightarrow> 'n \<Rightarrow> bool"
  f_length :: "nat \<Rightarrow> 'n"

subsection \<open>The arithmetic without rounding\<close>

text \<open>
  The concrete inputs below are run in the arithmetic that does not round: a number is a
  real, or NaN, written \<open>None\<close>. Every operation on NaN gives NaN, \<open>0 / 0\<close> and the
  square root of a negative number are NaN, and every comparison with NaN is false. The
  infinities are not among these numbers: a nonzero number over zero is NaN here as well.
  An embedding, as the processor stores it, is an array of finite numbers.
\<close>

type_synonym embedding = "real list"

type_synonym jsnum = "real option"

definition js_add :: "jsnum \<Rightarrow> jsnum \<Rightarrow> jsnum" where
  "js_add x y = (case x of None \<Rightarrow> None | Some a \<Rightarrow> (case y of None \<Rightarrow> None | Some b \<Rightarrow> Some (a + b)))"

definition js_mul :: "jsnum \<Rightarrow> jsnum \<Rightarrow> jsnum" where
  "js_mul x y = (case x of None \<Rightarrow> None | Some a \<Rightarrow> (case y of None \<Rightarrow> None | Some b \<Rightarrow> Some (a * b)))"

definition js_sqrt :: "jsnum \<Rightarrow> jsnum" where
  "js_sqrt x = (case x of None \<Rightarrow> None | Some a \<Rightarrow> if a < 0 then None else Some (sqrt a))"

definition js_div :: "jsnum \<Rightarrow> jsnum \<Rightarrow> jsnum" where
  "js_div x y =
     (case x of None \<Rightarrow> None
      | Some a \<Rightarrow> (case y of None \<Rightarrow> None | Some b \<Rightarrow> if b = 0 then None else Some (a / b)))"

definition js_gt :: "jsnum \<Rightarrow> jsnum \<Rightarrow> bool" where
  "js_gt x y = (case x of None \<Rightarrow> False | Some a \<Rightarrow> (case y of None \<Rightarrow> False | Some b \<Rightarrow> a > b))"

definition exact :: "jsnum arith" where
  "exact = \<lparr>f_zero = Some 0, f_nan = None, f_add = js_add, f_mul = js_mul, f_div = js_div,
            f_sqrt = js_sqrt, f_gt = js_gt, f_length = (\<lambda>n. Some (real n))\<rparr>"

section \<open>Cosine similarity\<close>

text \<open>
  The loop of \<open>cosineSimilarity\<close> runs over the indices of \<open>a\<close>. Where \<open>b\<close> is
  shorter, \<open>b[i]\<close> is \<open>undefined\<close>, which the multiplication turns into NaN. The
  accumulator is \<open>(dotProduct, normA, normB)\<close>.
\<close>

fun cosine_loop :: "'n arith \<Rightarrow> 'n list \<Rightarrow> 'n list \<Rightarrow> 'n \<times> 'n \<times> 'n \<Rightarrow> 'n \<times> 'n \<times> 'n" where
  "cosine_loop ar [] b acc = acc"
| "cosine_loop ar (x # a) [] (dotProduct, normA, normB) =
     cosine_loop ar a []
       (f_add ar dotProduct (f_mul ar x (f_nan ar)),
        f_add ar normA (f_mul ar x x),
        f_add ar normB (f_mul ar (f_nan ar) (f_nan ar)))"
| "cosine_loop ar (x # a) (y # b) (dotProduct, normA, normB) =
     cosine_loop ar a b
       (f_add ar dotProduct (f_mul ar x y),
        f_add ar normA (f_mul ar x x),
        f_add ar normB (f_mul ar y y))"

text \<open>
  RealAIProcessor.cosineSimilarity:
  \<open>const denominator = Math.sqrt(normA) * Math.sqrt(normB);
  return denominator > 0 ? dotProduct / denominator : 0\<close>.
\<close>

definition cosineSimilarity :: "'n arith \<Rightarrow> 'n list \<Rightarrow> 'n list \<Rightarrow> 'n" where
  "cosineSimilarity ar a b =
     (case cosine_loop ar a b (f_zero ar, f_zero ar, f_zero ar) of (dotProduct, normA, normB) \<Rightarrow>
        (let denominator = f_mul ar (f_sqrt ar normA) (f_sqrt ar normB)
         in if f_gt ar denominator (f_zero ar) then f_div ar dotProduct denominator else f_zero ar))"

text \<open>
  SimpleAIProcessor.cosineSimilarity has no guard:
  \<open>return dotProduct / (Math.sqrt(normA) * Math.sqrt(normB))\<close>.
\<close>

definition Simple_cosineSimilarity :: "'n arith \<Rightarrow> 'n list \<Rightarrow> 'n list \<Rightarrow> 'n" where
  "Simple_cosineSimilarity ar a b =
     (case cosine_loop ar a b (f_zero ar, f_zero ar, f_zero ar) of (dotProduct, normA, normB) \<Rightarrow>
        f_div ar dotProduct (f_mul ar (f_sqrt ar normA) (f_sqrt ar normB)))"

text \<open>
  \<open>calculateAverageSimilarity\<close>, the same in both processors but for the cosine it
  calls (the second argument here):
  \<open>similarities.reduce((a, b) => a + b, 0) / similarities.length\<close>.
\<close>

definition calculateAverageSimilarity ::
  "'n arith \<Rightarrow> ('n list \<Rightarrow> 'n list \<Rightarrow> 'n) \<Rightarrow> 'n list \<Rightarrow> 'n list list \<Rightarrow> 'n" where
  "calculateAverageSimilarity ar cosine e groupEmbeddings =
     (let similarities = map (cosine e) groupEmbeddings
      in f_div ar (foldl (f_add ar) (f_zero ar) similarities) (f_length ar (length similarities)))"

section \<open>Greedy clustering (the loop of groupTabsBySimilarity)\<close>

record ('tab, 'n) tab_group =
  tabs :: "'tab list"
  embeddings :: "'n list list"
  indices :: "nat list"

record ('tab, 'n) clustering =
  groups :: "('tab, 'n) tab_group list"
  ungrouped :: "'tab list"

text \<open>
  The body of the inner \<open>for (let j = i + 1; ...)\<close> loop. \<open>assigned\<close> is the
  \<open>Set\<close> of indices.
\<close>

definition scan_step ::
  "'n arith \<Rightarrow> ('n list \<Rightarrow> 'n list \<Rightarrow> 'n) \<Rightarrow> ('tab \<times> 'n list) list \<Rightarrow> 'n \<Rightarrow>
   ('tab, 'n) tab_group \<times> nat set \<Rightarrow> nat \<Rightarrow> ('tab, 'n) tab_group \<times> nat set" where
  "scan_step ar cosine items threshold st j =
     (case st of (grp, assigned) \<Rightarrow>
        if j \<in> assigned then (grp, assigned)
        else if f_gt ar (calculateAverageSimilarity ar cosine (snd (items ! j)) (embeddings grp)) threshold
        then (grp\<lparr>tabs := tabs grp @ [fst (items ! j)],
                    embeddings := embeddings grp @ [snd (items ! j)],
                    indices := indices grp @ [j]\<rparr>,
              insert j assigned)
        else (grp, assigned))"

text \<open>The body of the outer \<open>for (let i = 0; ...)\<close> loop.\<close>

definition seed_step ::
  "'n arith \<Rightarrow> ('n list \<Rightarrow> 'n list \<Rightarrow> 'n) \<Rightarrow> ('tab \<times> 'n list) list \<Rightarrow> 'n \<Rightarrow>
   ('tab, 'n) tab_group list \<times> nat set \<Rightarrow> nat \<Rightarrow> ('tab, 'n) tab_group list \<times> nat set" where
  "seed_step ar cosine items threshold st i =
     (case st of (gs, assigned) \<Rightarrow>
        if i \<in> assigned then (gs, assigned)
        else (case foldl (scan_step ar cosine items threshold)
                     (\<lparr>tabs = [fst (items ! i)], embeddings = [snd (items ! i)], indices = [i]\<rparr>,
                      insert i assigned)
                     [i + 1 ..< length items] of
                (grp, assigned') \<Rightarrow>
                  (if length (tabs grp) \<ge> 2 then gs @ [grp] else gs, assigned')))"

text \<open>
  Lines 691 to 725 of RealAIProcessor.groupTabsBySimilarity (180 to 226 of the simple
  processor's), on the tabs paired with their embeddings (\<open>tabs[i]\<close>,
  \<open>embeddings[i]\<close>), for the cosine of the processor.
\<close>

definition cluster_with ::
  "'n arith \<Rightarrow> ('n list \<Rightarrow> 'n list \<Rightarrow> 'n) \<Rightarrow> ('tab \<times> 'n list) list \<Rightarrow> 'n \<Rightarrow> ('tab, 'n) clustering" where
  "cluster_with ar cosine items threshold =
     (case foldl (seed_step ar cosine items threshold) ([], {}) [0 ..< length items] of
        (gs, assigned) \<Rightarrow>
          \<lparr>groups = gs,
           ungrouped = map fst (filter (\<lambda>(t, i). i \<notin> assigned)
                                       (zip (map fst items) [0 ..< length items]))\<rparr>)"

text \<open>The loop of RealAIProcessor, in an arithmetic.\<close>

definition cluster_in :: "'n arith \<Rightarrow> ('tab \<times> 'n list) list \<Rightarrow> 'n \<Rightarrow> ('tab, 'n) clustering" where
  "cluster_in ar items threshold = cluster_with ar (cosineSimilarity ar) items threshold"

text \<open>
  The loops of the two processors on embeddings of finite numbers and a finite threshold,
  in the arithmetic without rounding.
\<close>

definition as_numbers :: "('tab \<times> embedding) list \<Rightarrow> ('tab \<times> jsnum list) list" where
  "as_numbers items = map (\<lambda>(t, e). (t, map Some e)) items"

definition cluster :: "('tab \<times> embedding) list \<Rightarrow> real \<Rightarrow> ('tab, jsnum) clustering" where
  "cluster items threshold = cluster_in exact (as_numbers items) (Some threshold)"

definition Simple_cluster :: "('tab \<times> embedding) list \<Rightarrow> real \<Rightarrow> ('tab, jsnum) clustering" where
  "Simple_cluster items threshold =
     cluster_with exact (Simple_cosineSimilarity exact) (as_numbers items) (Some threshold)"

text \<open>The number of tabs that a result holds in groups.\<close>

definition grouped_count :: "('tab, 'n) clustering \<Rightarrow> nat" where
  "grouped_count c = sum_list (map (\<lambda>g. length (tabs g)) (groups c))"

section \<open>The processor (class RealAIProcessor)\<close>

datatype lifecycle =
  BOOT | ORT_CONFIGURED | WASM_READY | SESSION_READY | TOKENIZER_READY | WARMED_UP | READY | ERROR

text \<open>The errors thrown by the processor, one constructor per \<open>throw\<close>.\<close>

datatype js_error =
  NotReady              \<comment> \<open>\<open>new Error('AI model not ready')\<close>\<close>
| OrtNotLoaded          \<comment> \<open>\<open>new Error('ONNX Runtime Web not loaded')\<close>\<close>
| ModelLoadFailed       \<comment> \<open>what \<open>loadModel\<close> rethrows\<close>
| TokenizerLoadFailed   \<comment> \<open>what \<open>loadTokenizer\<close> rethrows\<close>
| WarmupNull            \<comment> \<open>\<open>'Warm-up inference failed: generateEmbedding returned null.'\<close>\<close>
| WarmupWrongDims nat   \<comment> \<open>\<open>'... Expected 384, got n'\<close>\<close>
| ModelNotInitialized   \<comment> \<open>the simple processor's \<open>new Error('Model not initialized')\<close>\<close>
| ModelNotLoaded        \<comment> \<open>the simple processor's \<open>new Error('Model not loaded')\<close>\<close>
| TypeError             \<comment> \<open>a method call on \<open>undefined\<close>\<close>

text \<open>
  \<open>tokenizerData\<close> holds the three parsed JSON files. The code reads of it the field
  \<open>tokenizer\<close>, the content of tokenizer.json: \<open>None\<close> where that content is a
  falsy value (\<open>null\<close>, \<open>false\<close>, 0 or the empty string), otherwise the
  vocabulary \<open>tokenizer.model.vocab\<close>, empty where the value has none.
\<close>

record tokenizer_data =
  tokenizer :: "(string \<times> int) list option"

text \<open>
  An ONNX inference session is an object of the runtime library. Of it the processor reads
  the two name lists and calls \<open>run\<close>. Lines 587 to 627 of \<open>generateEmbedding\<close>
  (tokenise with the tokenizer data at hand, run the session, mean-pool, normalise) are
  floating-point work on the runtime's tensors; they are the field \<open>infer\<close>, a function
  of the tokenizer data and the text that is \<open>None\<close> when anything in that block throws.
\<close>

record session =
  inputNames :: "string list"
  outputNames :: "string list"
  infer :: "tokenizer_data option \<Rightarrow> string \<Rightarrow> embedding option"

text \<open>The fields of the \<open>details\<close> objects that the code reads back.\<close>

record details =
  d_stage :: "lifecycle option"
  d_error :: "js_error option"
  d_wasm :: bool                 \<comment> \<open>\<open>wasmVariant\<close> and \<open>wasmSize\<close> present\<close>
  d_testEmbedding :: bool        \<comment> \<open>\<open>testEmbedding === 'successful'\<close>\<close>
  d_allStagesCompleted :: bool   \<comment> \<open>with \<open>initializationTimestamp\<close>\<close>

record envelope =
  e_stage :: lifecycle
  e_error :: js_error
  e_resource :: "string option"

datatype message =
  StatusMsg lifecycle details    \<comment> \<open>\<open>'ai:status'\<close>\<close>
| ErrorMsg envelope              \<comment> \<open>\<open>'ai:error'\<close>\<close>

text \<open>
  \<open>embeddingCache\<close> is a JavaScript \<open>Map\<close>: keys are unique and iterate in insertion
  order, so it is an association list. \<open>outbox\<close> collects what is handed to
  \<open>window.Messaging.send\<close>, \<open>validations\<close> what \<open>validateMilestone\<close> prints.
\<close>

record processor =
  session :: "session option"
  tokenizerData :: "tokenizer_data option"
  embeddingCache :: "(string \<times> embedding) list"
  modelReady :: bool
  currentState :: lifecycle
  stateDetails :: details
  outbox :: "message list"
  validations :: "(lifecycle \<times> bool) list"

definition no_details :: details where
  "no_details = \<lparr>d_stage = None, d_error = None, d_wasm = False, d_testEmbedding = False,
                  d_allStagesCompleted = False\<rparr>"

text \<open>The constructor.\<close>

definition new_processor :: processor where
  "new_processor =
     \<lparr>session = None, tokenizerData = None, embeddingCache = [], modelReady = False,
      currentState = BOOT, stateDetails = no_details, outbox = [], validations = []\<rparr>"

subsection \<open>The Map operations\<close>

fun Map_set :: "'k \<Rightarrow> 'v \<Rightarrow> ('k \<times> 'v) list \<Rightarrow> ('k \<times> 'v) list" where
  "Map_set k v [] = [(k, v)]"
| "Map_set k v (p # ps) = (if fst p = k then (k, v) # ps else p # Map_set k v ps)"

definition Map_delete :: "'k \<Rightarrow> ('k \<times> 'v) list \<Rightarrow> ('k \<times> 'v) list" where
  "Map_delete k m = filter (\<lambda>p. fst p \<noteq> k) m"

definition Map_get :: "('k \<times> 'v) list \<Rightarrow> 'k \<Rightarrow> 'v option" where
  "Map_get m k = map_of m k"

subsection \<open>generateEmbedding and generateEmbeddings\<close>

text \<open>
  The result is the thrown error, or the returned value: \<open>None\<close> for \<open>null\<close>. The
  readiness check is outside the \<open>try\<close>; everything thrown inside it is caught.
\<close>

definition generateEmbedding :: "processor \<Rightarrow> string \<Rightarrow> (js_error + embedding option) \<times> processor" where
  "generateEmbedding p text =
     (if \<not> modelReady p then (Inl NotReady, p)
      else case session p of
        None \<Rightarrow> (Inl NotReady, p)
      | Some s \<Rightarrow>
               (case Map_get (embeddingCache p) text of
                  Some cached \<Rightarrow> (Inr (Some cached), p)
                | None \<Rightarrow>
                    (case infer s (tokenizerData p) text of
                       None \<Rightarrow> (Inr None, p)
                     | Some result \<Rightarrow>
                         (let c = Map_set text result (embeddingCache p);
                              c' = (if length c > 500 then Map_delete (fst (hd c)) c else c)
                          in (Inr (Some result), p\<lparr>embeddingCache := c'\<rparr>)))))"

fun generateEmbeddings :: "processor \<Rightarrow> string list \<Rightarrow> (js_error + embedding list) \<times> processor" where
  "generateEmbeddings p [] = (Inr [], p)"
| "generateEmbeddings p (text # texts) =
     (case generateEmbedding p text of
        (Inl err, p') \<Rightarrow> (Inl err, p')
      | (Inr r, p') \<Rightarrow>
          (let e = (case r of Some e \<Rightarrow> e | None \<Rightarrow> replicate 384 0)
           in (case generateEmbeddings p' texts of
                 (Inl err, p'') \<Rightarrow> (Inl err, p'')
               | (Inr es, p'') \<Rightarrow> (Inr (e # es), p''))))"

section \<open>The initialization state machine\<close>

text \<open>
  What initialization finds outside the processor: whether the runtime library is loaded
  and configured with its paths, the session that \<open>InferenceSession.create\<close> returns
  (\<open>None\<close> when the fetch or the creation throws) and the tokenizer files (\<open>None\<close>
  when a fetch throws).
\<close>

record env =
  ort_defined :: bool
  ort_wasmPaths :: bool
  created_session :: "session option"
  loaded_tokenizer :: "tokenizer_data option"

definition getResourceForStage :: "lifecycle \<Rightarrow> string option" where
  "getResourceForStage stage =
     (case stage of
        ORT_CONFIGURED \<Rightarrow> Some ''ort.min.js''
      | WASM_READY \<Rightarrow> Some ''ort-wasm-simd.wasm''
      | SESSION_READY \<Rightarrow> Some ''ai/models/Xenova/all-MiniLM-L6-v2/model_quantized.onnx''
      | TOKENIZER_READY \<Rightarrow> Some ''ai/models/Xenova/all-MiniLM-L6-v2/tokenizer.json''
      | _ \<Rightarrow> None)"

definition emitError :: "processor \<Rightarrow> lifecycle \<Rightarrow> js_error \<Rightarrow> string option \<Rightarrow> processor" where
  "emitError p stage err resource =
     p\<lparr>outbox := outbox p @
          [ErrorMsg \<lparr>e_stage = stage, e_error = err,
                     e_resource = (case resource of Some r \<Rightarrow> Some r
                                   | None \<Rightarrow> getResourceForStage stage)\<rparr>]\<rparr>"

text \<open>\<open>logStage(stage, 'FAIL', { error })\<close>; the other statuses only print.\<close>

definition logStage_FAIL :: "processor \<Rightarrow> lifecycle \<Rightarrow> js_error \<Rightarrow> processor" where
  "logStage_FAIL p stage err = emitError p stage err None"

text \<open>
  The validators of \<open>validateMilestone\<close>, \<open>None\<close> for a state that has none. The name
  lists of a session are arrays, and an array is truthy also when it is empty, so the
  validator of \<open>SESSION_READY\<close> asks only for a session. The validator of
  \<open>TOKENIZER_READY\<close> is \<open>this.tokenizerData && this.tokenizerData.tokenizer\<close>.
\<close>

definition validateMilestone :: "env \<Rightarrow> processor \<Rightarrow> lifecycle \<Rightarrow> details \<Rightarrow> bool option" where
  "validateMilestone ev p state det =
     (case state of
        ORT_CONFIGURED \<Rightarrow> Some (ort_defined ev \<and> ort_wasmPaths ev)
      | WASM_READY \<Rightarrow> Some (d_wasm det)
      | SESSION_READY \<Rightarrow> Some (session p \<noteq> None)
      | TOKENIZER_READY \<Rightarrow>
          Some (case tokenizerData p of None \<Rightarrow> False | Some td \<Rightarrow> tokenizer td \<noteq> None)
      | WARMED_UP \<Rightarrow> Some (d_testEmbedding det)
      | READY \<Rightarrow> Some (d_allStagesCompleted det)
      | _ \<Rightarrow> None)"

text \<open>\<open>{ ...this.stateDetails, ...details }\<close>\<close>

definition merge_details :: "details \<Rightarrow> details \<Rightarrow> details" where
  "merge_details old new =
     \<lparr>d_stage = (case d_stage new of Some x \<Rightarrow> Some x | None \<Rightarrow> d_stage old),
      d_error = (case d_error new of Some x \<Rightarrow> Some x | None \<Rightarrow> d_error old),
      d_wasm = (d_wasm new \<or> d_wasm old),
      d_testEmbedding = (d_testEmbedding new \<or> d_testEmbedding old),
      d_allStagesCompleted = (d_allStagesCompleted new \<or> d_allStagesCompleted old)\<rparr>"

text \<open>
  The state is assigned first; the validation result is printed and not acted on; the new
  state is broadcast.
\<close>

definition transitionToState :: "env \<Rightarrow> processor \<Rightarrow> lifecycle \<Rightarrow> details \<Rightarrow> processor" where
  "transitionToState ev p newState det =
     (let p1 = p\<lparr>currentState := newState, stateDetails := merge_details (stateDetails p) det\<rparr>;
          p2 = (case validateMilestone ev p1 newState det of
                  None \<Rightarrow> p1
                | Some passed \<Rightarrow> p1\<lparr>validations := validations p1 @ [(newState, passed)]\<rparr>)
      in p2\<lparr>outbox := outbox p2 @ [StatusMsg (currentState p2) (stateDetails p2)]\<rparr>)"

definition configureONNXRuntime :: "env \<Rightarrow> js_error + unit" where
  "configureONNXRuntime ev = (if ort_defined ev then Inr () else Inl OrtNotLoaded)"

definition loadModel :: "env \<Rightarrow> processor \<Rightarrow> (js_error + unit) \<times> processor" where
  "loadModel ev p =
     (case created_session ev of
        None \<Rightarrow> (Inl ModelLoadFailed, p)
      | Some s \<Rightarrow> (Inr (), p\<lparr>session := Some s\<rparr>))"

definition loadTokenizer :: "env \<Rightarrow> processor \<Rightarrow> (js_error + unit) \<times> processor" where
  "loadTokenizer ev p =
     (case loaded_tokenizer ev of
        None \<Rightarrow> (Inl TokenizerLoadFailed, p)
      | Some t \<Rightarrow> (Inr (), p\<lparr>tokenizerData := Some t\<rparr>))"

definition warmUp :: "processor \<Rightarrow> (js_error + unit) \<times> processor" where
  "warmUp p =
     (case generateEmbedding p ''warmup test'' of
        (Inl err, p') \<Rightarrow> (Inl err, p')
      | (Inr None, p') \<Rightarrow> (Inl WarmupNull, p')
      | (Inr (Some testEmbedding), p') \<Rightarrow>
          if length testEmbedding \<noteq> 384 then (Inl (WarmupWrongDims (length testEmbedding)), p')
          else (Inr (), p'))"

text \<open>
  The six steps of \<open>performInitialization\<close>. Each is one inner \<open>try\<close>: it yields the
  processor after the transition, or the error it rethrows with the processor at that
  moment (after \<open>logStage(..., 'FAIL', ...)\<close>). \<open>verifyWASMFiles\<close> catches every
  error itself, so the second step cannot fail.
\<close>

type_synonym step_result = "(js_error \<times> processor) + processor"

definition step_ORT_CONFIGURED :: "env \<Rightarrow> processor \<Rightarrow> step_result" where
  "step_ORT_CONFIGURED ev p =
     (case configureONNXRuntime ev of
        Inl err \<Rightarrow> Inl (err, logStage_FAIL p ORT_CONFIGURED err)
      | Inr _ \<Rightarrow> Inr (transitionToState ev p ORT_CONFIGURED no_details))"

definition step_WASM_READY :: "env \<Rightarrow> processor \<Rightarrow> step_result" where
  "step_WASM_READY ev p = Inr (transitionToState ev p WASM_READY (no_details\<lparr>d_wasm := True\<rparr>))"

definition step_SESSION_READY :: "env \<Rightarrow> processor \<Rightarrow> step_result" where
  "step_SESSION_READY ev p =
     (case loadModel ev p of
        (Inl err, p') \<Rightarrow> Inl (err, logStage_FAIL p' SESSION_READY err)
      | (Inr _, p') \<Rightarrow> Inr (transitionToState ev p' SESSION_READY no_details))"

definition step_TOKENIZER_READY :: "env \<Rightarrow> processor \<Rightarrow> step_result" where
  "step_TOKENIZER_READY ev p =
     (case loadTokenizer ev p of
        (Inl err, p') \<Rightarrow> Inl (err, logStage_FAIL p' TOKENIZER_READY err)
      | (Inr _, p') \<Rightarrow> Inr ((transitionToState ev p' TOKENIZER_READY no_details)\<lparr>modelReady := True\<rparr>))"

definition step_WARMED_UP :: "env \<Rightarrow> processor \<Rightarrow> step_result" where
  "step_WARMED_UP ev p =
     (case warmUp p of
        (Inl err, p') \<Rightarrow> Inl (err, logStage_FAIL p' WARMED_UP err)
      | (Inr _, p') \<Rightarrow> Inr (transitionToState ev p' WARMED_UP (no_details\<lparr>d_testEmbedding := True\<rparr>)))"

definition step_READY :: "env \<Rightarrow> processor \<Rightarrow> step_result" where
  "step_READY ev p =
     Inr (transitionToState ev p READY (no_details\<lparr>d_allStagesCompleted := True\<rparr>))"

text \<open>A step runs only if nothing was thrown before it.\<close>

definition then_step :: "step_result \<Rightarrow> (processor \<Rightarrow> step_result) \<Rightarrow> step_result" where
  "then_step r f = (case r of Inl e \<Rightarrow> Inl e | Inr p \<Rightarrow> f p)"

text \<open>
  The outer \<open>catch\<close>: \<open>stage: this.currentState\<close> is read before the transition to
  \<open>ERROR\<close>, the stage of the envelope after it.
\<close>

definition init_failed :: "env \<Rightarrow> processor \<Rightarrow> js_error \<Rightarrow> (js_error + unit) \<times> processor" where
  "init_failed ev p err =
     (let det = no_details\<lparr>d_error := Some err, d_stage := Some (currentState p)\<rparr>;
          p1 = transitionToState ev p ERROR det;
          p2 = emitError p1 (currentState p1) err None
      in (Inl err, p2))"

definition performInitialization :: "env \<Rightarrow> processor \<Rightarrow> (js_error + unit) \<times> processor" where
  "performInitialization ev p =
     (case foldl then_step (Inr (transitionToState ev p BOOT no_details))
             [step_ORT_CONFIGURED ev, step_WASM_READY ev, step_SESSION_READY ev,
              step_TOKENIZER_READY ev, step_WARMED_UP ev, step_READY ev] of
        Inl (err, p') \<Rightarrow> init_failed ev p' err
      | Inr p' \<Rightarrow> (Inr (), p'))"

text \<open>
  \<open>initialize\<close>, for calls that do not overlap (the held promise that overlapping calls
  share is not modelled).
\<close>

definition initialize :: "env \<Rightarrow> processor \<Rightarrow> (js_error + unit) \<times> processor" where
  "initialize ev p = (if currentState p = READY then (Inr (), p) else performInitialization ev p)"

subsection \<open>The message handler, for the embedding requests\<close>

datatype request = Ai_embed string | GENERATE_EMBEDDING string

datatype response =
  Not_ready lifecycle bool            \<comment> \<open>state and \<open>modelReady\<close>\<close>
| Embedded "embedding option"        \<comment> \<open>\<open>success: true\<close>\<close>
| Failed js_error                     \<comment> \<open>\<open>success: false\<close>\<close>

definition messageHandler :: "processor \<Rightarrow> request \<Rightarrow> response \<times> processor" where
  "messageHandler p message =
     (let text = (case message of Ai_embed t \<Rightarrow> t | GENERATE_EMBEDDING t \<Rightarrow> t)
      in if currentState p \<noteq> READY \<or> \<not> modelReady p
         then (Not_ready (currentState p) (modelReady p), p)
         else (case generateEmbedding p text of
                 (Inl err, p') \<Rightarrow> (Failed err, p')
               | (Inr e, p') \<Rightarrow> (Embedded e, p')))"

section \<open>Tabs and strings\<close>

text \<open>
  A tab as the browser hands it over. \<open>title\<close> and \<open>url\<close> can be missing
  (\<open>undefined\<close>). A string is the list of the bytes of its UTF-8 encoding, and a string
  literal of the code is the bytes that stand in the source file.
\<close>

record tab =
  tab_id :: nat
  title :: "string option"
  url :: "string option"
  pinned :: bool

text \<open>
  What the code calls of the browser on strings: \<open>new URL(u).hostname\<close>, the URL parser,
  \<open>None\<close> where the constructor throws; and \<open>toLowerCase\<close>, \<open>toUpperCase\<close> and
  \<open>trim\<close> of \<open>String.prototype\<close>, which map and strip Unicode characters. They are
  the fields of a host, a parameter of every function that calls one of them.
\<close>

record host =
  hostname :: "string \<Rightarrow> string option"
  toLowerCase :: "string \<Rightarrow> string"
  toUpperCase :: "string \<Rightarrow> string"
  trim :: "string \<Rightarrow> string"

text \<open>\<open>s.includes(k)\<close>\<close>

fun str_includes :: "string \<Rightarrow> string \<Rightarrow> bool" where
  "str_includes [] k = (k = [])"
| "str_includes (c # s) k = (prefix k (c # s) \<or> str_includes s k)"

text \<open>\<open>parts.join(sep)\<close>\<close>

fun join :: "string \<Rightarrow> string list \<Rightarrow> string" where
  "join sep [] = []"
| "join sep [x] = x"
| "join sep (x # y # ys) = x @ sep @ join sep (y # ys)"

text \<open>\<open>s.replace(pat, rep)\<close> with a string pattern: the first occurrence only.\<close>

fun replace_first :: "string \<Rightarrow> string \<Rightarrow> string \<Rightarrow> string" where
  "replace_first pat rep [] = (if pat = [] then rep else [])"
| "replace_first pat rep (c # s) =
     (if prefix pat (c # s) then rep @ drop (length pat) (c # s)
      else c # replace_first pat rep s)"

text \<open>\<open>s.split(sep)[0]\<close> for a one-character separator.\<close>

definition split_first :: "char \<Rightarrow> string \<Rightarrow> string" where
  "split_first sep s = takeWhile (\<lambda>c. c \<noteq> sep) s"

text \<open>
  \<open>s.charAt(0).toUpperCase() + s.slice(1)\<close>. The first character is the first byte
  where the string begins with an ASCII character, as every host name does.
\<close>

definition capitalize :: "host \<Rightarrow> string \<Rightarrow> string" where
  "capitalize h s = toUpperCase h (take 1 s) @ drop 1 s"

text \<open>\<open>x || y\<close> on strings that may be missing: the empty string is falsy.\<close>

definition or_else :: "string option \<Rightarrow> string \<Rightarrow> string" where
  "or_else x y = (case x of None \<Rightarrow> y | Some s \<Rightarrow> if s = [] then y else s)"

text \<open>
  \<open>new URL(tab.url).hostname.replace('www.', '')\<close>; \<open>None\<close> where the constructor
  throws, which it also does for a missing url.
\<close>

definition tab_domain :: "host \<Rightarrow> tab \<Rightarrow> string option" where
  "tab_domain h t =
     (case url t of
        None \<Rightarrow> None
      | Some u \<Rightarrow> (case hostname h u of None \<Rightarrow> None | Some hn \<Rightarrow> Some (replace_first ''www.'' [] hn)))"

section \<open>groupTabsBySimilarity\<close>

text \<open>The text of a tab (\<open>tabTexts\<close>).\<close>

definition tabText :: "host \<Rightarrow> tab \<Rightarrow> string" where
  "tabText h t =
     (case tab_domain h t of
        Some d \<Rightarrow> trim h (or_else (title t) [] @ '' '' @ d)
      | None \<Rightarrow> or_else (title t) (or_else (url t) []))"

text \<open>
  The embeddings come from the processor, and the loop runs on them; here in the arithmetic
  without rounding.
\<close>

definition groupTabsBySimilarity ::
  "host \<Rightarrow> processor \<Rightarrow> tab list \<Rightarrow> real \<Rightarrow> (js_error + (tab, jsnum) clustering) \<times> processor" where
  "groupTabsBySimilarity h p ts threshold =
     (case generateEmbeddings p (map (tabText h) ts) of
        (Inl err, p') \<Rightarrow> (Inl err, p')
      | (Inr es, p') \<Rightarrow> (Inr (cluster (zip ts es) threshold), p'))"

section \<open>The cache of the simple processor (class SimpleAIProcessor)\<close>

record simple_processor =
  s_modelLoaded :: bool
  s_modelReady :: bool
  s_embeddingCache :: "(string \<times> embedding) list"

text \<open>
  \<open>LocalModelProcessor.generateEmbedding\<close> computes a vector from the text with
  \<open>Math.sin\<close>; it is the parameter \<open>pseudo\<close>.
\<close>

definition Simple_generateEmbedding ::
  "(string \<Rightarrow> embedding) \<Rightarrow> simple_processor \<Rightarrow> string \<Rightarrow> (js_error + embedding) \<times> simple_processor" where
  "Simple_generateEmbedding pseudo p text =
     (if \<not> s_modelReady p then (Inl ModelNotInitialized, p)
      else (case Map_get (s_embeddingCache p) text of
              Some cached \<Rightarrow> (Inr cached, p)
            | None \<Rightarrow>
                if \<not> s_modelLoaded p then (Inl ModelNotLoaded, p)
                else (Inr (pseudo text),
                      p\<lparr>s_embeddingCache := Map_set text (pseudo text) (s_embeddingCache p)\<rparr>)))"

fun Simple_generateEmbeddings ::
  "(string \<Rightarrow> embedding) \<Rightarrow> simple_processor \<Rightarrow> string list \<Rightarrow> (js_error + embedding list) \<times> simple_processor" where
  "Simple_generateEmbeddings pseudo p [] = (Inr [], p)"
| "Simple_generateEmbeddings pseudo p (text # texts) =
     (case Simple_generateEmbedding pseudo p text of
        (Inl err, p') \<Rightarrow> (Inl err, p')
      | (Inr e, p') \<Rightarrow>
          (case Simple_generateEmbeddings pseudo p' texts of
             (Inl err, p'') \<Rightarrow> (Inl err, p'')
           | (Inr es, p'') \<Rightarrow> (Inr (e # es), p'')))"

section \<open>Group labels (extractCommonTheme)\<close>

definition categories :: "(string \<times> string list) list" where
  "categories =
     [(''Development'', [''github'', ''stackoverflow'', ''npm'', ''code'', ''api'', ''dev'', ''programming'', ''debug'']),
      (''Research'', [''arxiv'', ''scholar'', ''paper'', ''research'', ''study'', ''academic'', ''journal'']),
      (''Social'', [''twitter'', ''facebook'', ''linkedin'', ''reddit'', ''social'', ''instagram'']),
      (''Shopping'', [''amazon'', ''ebay'', ''shop'', ''store'', ''buy'', ''cart'', ''product'']),
      (''Media'', [''youtube'', ''netflix'', ''spotify'', ''video'', ''music'', ''watch'', ''stream'']),
      (''News'', [''news'', ''cnn'', ''bbc'', ''article'', ''times'', ''post'', ''daily'']),
      (''Documentation'', [''docs'', ''documentation'', ''guide'', ''tutorial'', ''manual'', ''reference'']),
      (''Email'', [''mail'', ''gmail'', ''outlook'', ''inbox'', ''message'']),
      (''Work'', [''slack'', ''teams'', ''jira'', ''confluence'', ''asana'', ''trello'']),
      (''AI/ML'', [''hugging'', ''openai'', ''anthropic'', ''model'', ''llm'', ''neural'', ''machine learning'']),
      (''Design'', [''figma'', ''sketch'', ''adobe'', ''design'', ''canva'', ''dribbble''])]"

text \<open>
  \<open>extractCommonTheme\<close> is the same function in RealAIProcessor and SimpleAIProcessor
  but for the string literals in front of the names: the table \<open>emojis\<close>, the literal
  used for a category without entry and for the placeholder label, and the literal in front
  of a domain.
\<close>

record theme_literals =
  emojis :: "(string \<times> string) list"
  page_icon :: string
  globe_icon :: string

text \<open>In RealAIProcessor the literals are emoji, each four bytes that begin with F0 9F.\<close>

definition emoji :: "char \<Rightarrow> char \<Rightarrow> string" where
  "emoji a b = [CHR 0xF0, CHR 0x9F, a, b]"

definition bookmark_tabs :: string where
  "bookmark_tabs = emoji (CHR 0x93) (CHR 0x91)"

definition globe :: string where
  "globe = emoji (CHR 0x8C) (CHR 0x90)"

definition RealAI_literals :: theme_literals where
  "RealAI_literals =
     \<lparr>emojis =
        [(''Development'', emoji (CHR 0x92) (CHR 0xBB)), (''Research'', emoji (CHR 0x94) (CHR 0xAC)),
         (''Social'', emoji (CHR 0x92) (CHR 0xAC)), (''Shopping'', emoji (CHR 0x9B) (CHR 0x92)),
         (''Media'', emoji (CHR 0x8E) (CHR 0xAC)), (''News'', emoji (CHR 0x93) (CHR 0xB0)),
         (''Documentation'', emoji (CHR 0x93) (CHR 0x9A)), (''Email'', emoji (CHR 0x93) (CHR 0xA7)),
         (''Work'', emoji (CHR 0x92) (CHR 0xBC)), (''AI/ML'', emoji (CHR 0xA4) (CHR 0x96)),
         (''Design'', emoji (CHR 0x8E) (CHR 0xA8))],
      page_icon = bookmark_tabs,
      globe_icon = globe\<rparr>"

text \<open>
  In the file of SimpleAIProcessor the same emoji stand wrongly decoded; each literal is the
  five bytes EF A3 BF C3 BC and then these.
\<close>

definition Simple_icon :: "string \<Rightarrow> string" where
  "Simple_icon rest = [CHR 0xEF, CHR 0xA3, CHR 0xBF, CHR 0xC3, CHR 0xBC] @ rest"

definition Simple_literals :: theme_literals where
  "Simple_literals =
     \<lparr>emojis =
        [(''Development'', Simple_icon [CHR 0xC3, CHR 0xAD, CHR 0xC2, CHR 0xAA]),
         (''Research'', Simple_icon [CHR 0xC3, CHR 0xAE, CHR 0xC2, CHR 0xA8]),
         (''Social'', Simple_icon [CHR 0xC3, CHR 0xAD, CHR 0xC2, CHR 0xA8]),
         (''Shopping'', Simple_icon [CHR 0xC3, CHR 0xB5, CHR 0xC3, CHR 0xAD]),
         (''Media'', Simple_icon [CHR 0xC3, CHR 0xA9, CHR 0xC2, CHR 0xA8]),
         (''News'', Simple_icon [CHR 0xC3, CHR 0xAC, CHR 0xE2, CHR 0x88, CHR 0x9E]),
         (''Documentation'', Simple_icon [CHR 0xC3, CHR 0xAC, CHR 0xC3, CHR 0xB6]),
         (''Email'', Simple_icon [CHR 0xC3, CHR 0xAC, CHR 0xC3, CHR 0x9F]),
         (''Work'', Simple_icon [CHR 0xC3, CHR 0xAD, CHR 0xC2, CHR 0xBA]),
         (''AI/ML'', Simple_icon [CHR 0xC2, CHR 0xA7, CHR 0xC3, CHR 0xB1]),
         (''Design'', Simple_icon [CHR 0xC3, CHR 0xA9, CHR 0xC2, CHR 0xAE])],
      page_icon = Simple_icon [CHR 0xC3, CHR 0xAC, CHR 0xC3, CHR 0xAB],
      globe_icon = Simple_icon [CHR 0xC3, CHR 0xA5, CHR 0xC3, CHR 0xAA]\<rparr>"

text \<open>
  The score of a category: how many of its keywords occur in the text
  (\<open>keywords.filter(keyword => allText.includes(keyword)).length\<close>).
\<close>

definition category_scores :: "string \<Rightarrow> (string \<times> nat) list" where
  "category_scores allText =
     map (\<lambda>(category, keywords). (category, length (filter (str_includes allText) keywords))) categories"

text \<open>
  \<open>Object.entries(scores).sort((a, b) => b[1] - a[1])[0]\<close>: the sort is stable, and so
  is \<open>sort_key\<close>.
\<close>

definition extractCommonTheme :: "theme_literals \<Rightarrow> host \<Rightarrow> string list \<Rightarrow> string list \<Rightarrow> string" where
  "extractCommonTheme lits h titles domains =
     (let allText = toLowerCase h (join '' '' (titles @ domains));
          bestCategory = hd (sort_key (\<lambda>(category, score). - int score) (category_scores allText))
      in if snd bestCategory > 0
         then (case map_of (emojis lits) (fst bestCategory) of Some e \<Rightarrow> e | None \<Rightarrow> page_icon lits)
              @ '' '' @ fst bestCategory
         else if length domains > 0
         then globe_icon lits @ '' '' @ capitalize h (split_first (CHR ''.'') (hd domains))
         else page_icon lits @ '' Group'')"

text \<open>\<open>set.add(x)\<close> on a JavaScript \<open>Set\<close>, which iterates in insertion order.\<close>

definition Set_add :: "'a list \<Rightarrow> 'a \<Rightarrow> 'a list" where
  "Set_add s x = (if x \<in> set s then s else s @ [x])"

text \<open>The distinct domains of the tabs of a group, as \<open>generateGroupLabels\<close> collects them.\<close>

definition group_domains :: "host \<Rightarrow> tab list \<Rightarrow> string list" where
  "group_domains h ts = foldl Set_add [] (List.map_filter (tab_domain h) ts)"

text \<open>
  The label that \<open>generateGroupLabels\<close> gives to a group with these tabs. A missing
  title is \<open>''\<close> in RealAIProcessor and \<open>undefined\<close> in SimpleAIProcessor, which
  \<open>join\<close> turns into \<open>''\<close>.
\<close>

definition group_label :: "theme_literals \<Rightarrow> host \<Rightarrow> tab list \<Rightarrow> string" where
  "group_label lits h ts =
     extractCommonTheme lits h (map (\<lambda>t. or_else (title t) []) ts) (group_domains h ts)"

section \<open>The domain fallback (TabManager.groupTabsByDomain)\<close>

text \<open>
  The literals of \<open>generateGroupLabel\<close> are emoji wrongly decoded; each begins with the
  four bytes C3 B0 C5 B8.
\<close>

definition garbled :: "string \<Rightarrow> string" where
  "garbled rest = [CHR 0xC3, CHR 0xB0, CHR 0xC5, CHR 0xB8] @ rest"

definition labels :: "(string \<times> string) list" where
  "labels =
     [(''github.com'', garbled [CHR 0xE2, CHR 0x80, CHR 0x99, CHR 0xC2, CHR 0xBB] @ '' Development''),
      (''stackoverflow.com'', garbled [CHR 0xE2, CHR 0x80, CHR 0x99, CHR 0xC2, CHR 0xBB] @ '' Development''),
      (''google.com'', garbled [CHR 0xE2, CHR 0x80, CHR 0x9D] @ '' Search''),
      (''youtube.com'', garbled [CHR 0xC5, CHR 0xBD, CHR 0xC2, CHR 0xA5] @ '' Media''),
      (''twitter.com'', garbled [CHR 0xE2, CHR 0x80, CHR 0x99, CHR 0xC2, CHR 0xAC] @ '' Social''),
      (''linkedin.com'', garbled [CHR 0xE2, CHR 0x80, CHR 0x99, CHR 0xC2, CHR 0xBC] @ '' Professional''),
      (''reddit.com'', garbled [CHR 0xE2, CHR 0x80, CHR 0x99, CHR 0xC2, CHR 0xAC] @ '' Social''),
      (''docs.google.com'', garbled [CHR 0xE2, CHR 0x80, CHR 0x9C, CHR 0xE2, CHR 0x80, CHR 0x9E] @ '' Documents''),
      (''mail.google.com'', garbled [CHR 0xE2, CHR 0x80, CHR 0x9C, CHR 0xC2, CHR 0xA7] @ '' Email'')]"

text \<open>
  \<open>labels[domain]\<close> reads an object literal, so a key that the literal does not have
  is looked up in \<open>Object.prototype\<close>. For one of these names the value found is a
  function or an object, which is truthy, and it is what \<open>generateGroupLabel\<close> returns.
\<close>

definition Object_prototype :: "string list" where
  "Object_prototype =
     [''constructor'', ''__defineGetter__'', ''__defineSetter__'', ''hasOwnProperty'',
      ''__lookupGetter__'', ''__lookupSetter__'', ''isPrototypeOf'', ''propertyIsEnumerable'',
      ''toString'', ''valueOf'', ''__proto__'', ''toLocaleString'']"

datatype label_value =
  Label string        \<comment> \<open>a string\<close>
| Inherited string    \<comment> \<open>the property of \<open>Object.prototype\<close> with this name\<close>

definition generateGroupLabel :: "host \<Rightarrow> string \<Rightarrow> tab list \<Rightarrow> label_value" where
  "generateGroupLabel h d ts =
     (case map_of labels d of
        Some l \<Rightarrow> Label l
      | None \<Rightarrow>
          if d \<in> set Object_prototype then Inherited d
          else Label (garbled [CHR 0xC5, CHR 0x92] @ '' '' @ capitalize h (split_first (CHR ''.'') d)))"

record domain_group =
  label :: label_value
  domain :: string
  dg_tabs :: "tab list"
  count :: nat

text \<open>
  The key under which \<open>groupTabsByDomain\<close> files a tab: the domain, or in the
  \<open>catch\<close> branch \<open>tab.url.split(':')[0]\<close>, which throws for a tab without url.
\<close>

definition domain_key :: "host \<Rightarrow> tab \<Rightarrow> js_error + string" where
  "domain_key h t =
     (case tab_domain h t of
        Some d \<Rightarrow> Inr d
      | None \<Rightarrow> (case url t of None \<Rightarrow> Inl TypeError | Some u \<Rightarrow> Inr (split_first (CHR '':'') u)))"

text \<open>The body of \<open>forEach\<close>: \<open>domainGroups.get(key).push(tab)\<close>, after creating the entry.\<close>

definition file_tab :: "(string \<times> tab list) list \<Rightarrow> string \<Rightarrow> tab \<Rightarrow> (string \<times> tab list) list" where
  "file_tab domainGroups key t =
     (case Map_get domainGroups key of
        None \<Rightarrow> Map_set key [t] domainGroups
      | Some members \<Rightarrow> Map_set key (members @ [t]) domainGroups)"

fun file_tabs :: "host \<Rightarrow> (string \<times> tab list) list \<Rightarrow> tab list \<Rightarrow> js_error + (string \<times> tab list) list" where
  "file_tabs h domainGroups [] = Inr domainGroups"
| "file_tabs h domainGroups (t # ts) =
     (case domain_key h t of
        Inl err \<Rightarrow> Inl err
      | Inr key \<Rightarrow> file_tabs h (file_tab domainGroups key t) ts)"

definition groupTabsByDomain :: "host \<Rightarrow> tab list \<Rightarrow> js_error + domain_group list" where
  "groupTabsByDomain h ts =
     (case file_tabs h [] ts of
        Inl err \<Rightarrow> Inl err
      | Inr domainGroups \<Rightarrow>
          Inr (sort_key (\<lambda>g. - int (count g))
                 (filter (\<lambda>g. count g \<ge> 2)
                    (map (\<lambda>(d, members).
                            \<lparr>label = generateGroupLabel h d members, domain = d,
                             dg_tabs = members, count = length members\<rparr>)
                         domainGroups))))"

section \<open>The clustering algorithm as the specification words it\<close>

text \<open>
  The greedy pass, over any items and any test \<open>joins group candidate\<close>. \<open>greedy_scan\<close>
  walks the candidates in order; a candidate that passes the test against the group as it
  is at that moment is appended to it, the others are left over, in order. The result is
  the final group and the left-over candidates.
\<close>

fun greedy_scan :: "('a list \<Rightarrow> 'a \<Rightarrow> bool) \<Rightarrow> 'a list \<Rightarrow> 'a list \<Rightarrow> 'a list \<times> 'a list" where
  "greedy_scan joins grp [] = (grp, [])"
| "greedy_scan joins grp (c # cs) =
     (if joins grp c then greedy_scan joins (grp @ [c]) cs
      else (fst (greedy_scan joins grp cs), c # snd (greedy_scan joins grp cs)))"

lemma greedy_scan_rest_length: "length (snd (greedy_scan joins grp cs)) \<le> length cs"
  by (induction cs arbitrary: grp) (auto simp: le_SucI)

text \<open>
  The first item not yet in a group seeds a new group, which scans the items after it;
  the pass goes on with the left-over items.
\<close>

function greedy_groups :: "('a list \<Rightarrow> 'a \<Rightarrow> bool) \<Rightarrow> 'a list \<Rightarrow> 'a list list" where
  "greedy_groups joins [] = []"
| "greedy_groups joins (s # rest) =
     fst (greedy_scan joins [s] rest) # greedy_groups joins (snd (greedy_scan joins [s] rest))"
  by pat_completeness auto
termination
  by (relation "measure (\<lambda>(joins, xs). length xs)") (auto simp: greedy_scan_rest_length le_imp_less_Suc)

text \<open>
  Cosine similarity: \<open>dot(a,b) / (|a| |b|)\<close>, and 0 when either norm is 0. The dot
  product is the sum of the products of the entries and the norm the square root of the sum
  of the squares, in the arithmetic at hand; a sum adds its terms to 0 from the first to
  the last.
\<close>

definition spec_sum :: "'n arith \<Rightarrow> 'n list \<Rightarrow> 'n" where
  "spec_sum ar xs = foldl (f_add ar) (f_zero ar) xs"

definition spec_dot :: "'n arith \<Rightarrow> 'n list \<Rightarrow> 'n list \<Rightarrow> 'n" where
  "spec_dot ar a b = spec_sum ar (map2 (f_mul ar) a b)"

definition spec_norm :: "'n arith \<Rightarrow> 'n list \<Rightarrow> 'n" where
  "spec_norm ar a = f_sqrt ar (spec_sum ar (map (\<lambda>x. f_mul ar x x) a))"

definition spec_cosine :: "'n arith \<Rightarrow> 'n list \<Rightarrow> 'n list \<Rightarrow> 'n" where
  "spec_cosine ar a b =
     (if spec_norm ar a = f_zero ar \<or> spec_norm ar b = f_zero ar then f_zero ar
      else f_div ar (spec_dot ar a b) (f_mul ar (spec_norm ar a) (spec_norm ar b)))"

text \<open>
  The mean cosine similarity of a candidate's embedding against every embedding currently
  in the group, and the test: the mean exceeds the threshold.
\<close>

definition spec_mean_similarity :: "'n arith \<Rightarrow> 'n list \<Rightarrow> 'n list list \<Rightarrow> 'n" where
  "spec_mean_similarity ar e es =
     f_div ar (spec_sum ar (map (spec_cosine ar e) es)) (f_length ar (length es))"

definition spec_joins :: "'n arith \<Rightarrow> 'n \<Rightarrow> ('tab \<times> 'n list) list \<Rightarrow> 'tab \<times> 'n list \<Rightarrow> bool" where
  "spec_joins ar threshold grp candidate =
     f_gt ar (spec_mean_similarity ar (snd candidate) (map snd grp)) threshold"

text \<open>A group with at least 2 members is emitted.\<close>

definition spec_groups :: "'n arith \<Rightarrow> ('tab \<times> 'n list) list \<Rightarrow> 'n \<Rightarrow> ('tab \<times> 'n list) list list" where
  "spec_groups ar items threshold =
     filter (\<lambda>g. 2 \<le> length g) (greedy_groups (spec_joins ar threshold) items)"

text \<open>
  The code tests the product of the two norms for \<open>> 0\<close> where the specification asks
  whether a norm is 0. The two agree for a pair of embeddings when the product of their
  norms is greater than 0 exactly if neither norm is 0. With real numbers that is always
  so. With doubles it is so unless a norm is NaN, which takes an entry that is NaN: the
  product of the square roots of two positive doubles does not round to 0, and a zero norm
  times an infinite one is NaN, which is not greater than 0.
\<close>

definition norms_multiply :: "'n arith \<Rightarrow> 'n list \<Rightarrow> 'n list \<Rightarrow> bool" where
  "norms_multiply ar a b =
     (f_gt ar (f_mul ar (spec_norm ar a) (spec_norm ar b)) (f_zero ar)
        = (spec_norm ar a \<noteq> f_zero ar \<and> spec_norm ar b \<noteq> f_zero ar))"

section \<open>Other notions of the specification\<close>

text \<open>
  The most common element of a list (the first of them in the list where several are
  equally common), for "the most common domain in the group".
\<close>

definition most_common :: "'a list \<Rightarrow> 'a option" where
  "most_common xs =
     (case sort_key (\<lambda>x. - int (count_list xs x)) xs of [] \<Rightarrow> None | x # _ \<Rightarrow> Some x)"

text \<open>
  The registrable domain of the glossary: the host name of a URL with a leading \<open>www\<close>
  label stripped. And the registrable domain of a tab whose URL parses.
\<close>

definition registrable_domain :: "string \<Rightarrow> string" where
  "registrable_domain hn = (if prefix ''www.'' hn then drop 4 hn else hn)"

definition tab_registrable_domain :: "host \<Rightarrow> tab \<Rightarrow> string option" where
  "tab_registrable_domain h t =
     (case url t of None \<Rightarrow> None | Some u \<Rightarrow> map_option registrable_domain (hostname h u))"

section \<open>Notions used in the proofs\<close>

text \<open>The group record whose members are the items at the indices \<open>is\<close>.\<close>

definition group_of :: "('tab \<times> 'n list) list \<Rightarrow> nat list \<Rightarrow> ('tab, 'n) tab_group" where
  "group_of items is =
     \<lparr>tabs = map (\<lambda>i. fst (items ! i)) is, embeddings = map (\<lambda>i. snd (items ! i)) is, indices = is\<rparr>"

text \<open>The test of the inner loop, on indices.\<close>

definition index_joins ::
  "'n arith \<Rightarrow> ('n list \<Rightarrow> 'n list \<Rightarrow> 'n) \<Rightarrow> ('tab \<times> 'n list) list \<Rightarrow> 'n \<Rightarrow> nat list \<Rightarrow> nat \<Rightarrow> bool" where
  "index_joins ar cosine items threshold is j =
     f_gt ar (calculateAverageSimilarity ar cosine (snd (items ! j)) (map (\<lambda>i. snd (items ! i)) is)) threshold"

text \<open>The same test on the items themselves.\<close>

definition item_joins ::
  "'n arith \<Rightarrow> ('n list \<Rightarrow> 'n list \<Rightarrow> 'n) \<Rightarrow> 'n \<Rightarrow> ('tab \<times> 'n list) list \<Rightarrow> 'tab \<times> 'n list \<Rightarrow> bool" where
  "item_joins ar cosine threshold grp candidate =
     f_gt ar (calculateAverageSimilarity ar cosine (snd candidate) (map snd grp)) threshold"

text \<open>The states and the error stages among the messages sent.\<close>

fun status_states :: "message list \<Rightarrow> lifecycle list" where
  "status_states [] = []"
| "status_states (StatusMsg s d # ms) = s # status_states ms"
| "status_states (ErrorMsg e # ms) = status_states ms"

fun error_stages :: "message list \<Rightarrow> lifecycle list" where
  "error_stages [] = []"
| "error_stages (StatusMsg s d # ms) = error_stages ms"
| "error_stages (ErrorMsg e # ms) = e_stage e # error_stages ms"

text \<open>The tabs filed under a key, none when the key is absent.\<close>

definition members_of :: "(string \<times> tab list) list \<Rightarrow> string \<Rightarrow> tab list" where
  "members_of m k = (case Map_get m k of None \<Rightarrow> [] | Some ms \<Rightarrow> ms)"

section \<open>Concrete inputs\<close>

definition mk_tab :: "nat \<Rightarrow> string \<Rightarrow> string \<Rightarrow> tab" where
  "mk_tab n t u = \<lparr>tab_id = n, title = Some t, url = Some u, pinned = False\<rparr>"

text \<open>
  Four tabs with unit embeddings in 8 dimensions. The entries, the sums and the quotients
  that the loop computes from them (the cosines are 3/4, 1/2, 0 and -1/2) are doubles, so
  the doubles compute them without rounding.
\<close>

definition four_items :: "(tab \<times> embedding) list" where
  "four_items =
     [(mk_tab 1 ''A'' ''https://a.example/'', [1/2, 1/2, 1/2, 1/2, 0, 0, 0, 0]),
      (mk_tab 2 ''B'' ''https://b.example/'', [1/2, 1/2, 0, 0, 1/2, 1/2, 0, 0]),
      (mk_tab 3 ''C'' ''https://c.example/'', [0, 1/2, 1/2, 1/2, - 1/2, 0, 0, 0]),
      (mk_tab 4 ''D'' ''https://d.example/'', [1/2, 0, - 1/2, 0, 1/2, 1/2, 0, 0])]"

text \<open>A single tab.\<close>

definition lone_item :: "(tab \<times> embedding) list" where
  "lone_item = [(mk_tab 7 ''Inbox'' ''https://mail.example/'', [1, 0, 0])]"

text \<open>
  A session without output names, whose inference yields nothing, and one that embeds
  every text but \<open>''broken''\<close> as the first unit vector.
\<close>

definition session_no_outputs :: session where
  "session_no_outputs =
     \<lparr>inputNames = [''input_ids'', ''attention_mask'', ''token_type_ids''], outputNames = [],
      infer = (\<lambda>tk text. None)\<rparr>"

definition session_ok :: session where
  "session_ok =
     \<lparr>inputNames = [''input_ids'', ''attention_mask'', ''token_type_ids''],
      outputNames = [''last_hidden_state''],
      infer = (\<lambda>tk text. if text = ''broken'' then None else Some (1 # replicate 383 0))\<rparr>"

text \<open>A tokenizer.json that holds an object, and one that holds \<open>null\<close>.\<close>

definition tokenizer_ok :: tokenizer_data where
  "tokenizer_ok = \<lparr>tokenizer = Some []\<rparr>"

definition tokenizer_null :: tokenizer_data where
  "tokenizer_null = \<lparr>tokenizer = None\<rparr>"

definition env_no_outputs :: env where
  "env_no_outputs =
     \<lparr>ort_defined = True, ort_wasmPaths = True, created_session = Some session_no_outputs,
      loaded_tokenizer = Some tokenizer_ok\<rparr>"

definition env_ok :: env where
  "env_ok =
     \<lparr>ort_defined = True, ort_wasmPaths = True, created_session = Some session_ok,
      loaded_tokenizer = Some tokenizer_ok\<rparr>"

text \<open>The processor on which \<open>performInitialization\<close> calls \<open>warmUp\<close>, in \<open>env_ok\<close>.\<close>

definition before_warmup :: step_result where
  "before_warmup =
     foldl then_step (Inr (transitionToState env_ok new_processor BOOT no_details))
       [step_ORT_CONFIGURED env_ok, step_WASM_READY env_ok, step_SESSION_READY env_ok,
        step_TOKENIZER_READY env_ok]"

text \<open>A ready processor, and one whose cache holds 500 entries.\<close>

definition ready_processor :: processor where
  "ready_processor =
     new_processor\<lparr>session := Some session_ok, tokenizerData := Some tokenizer_ok,
                   modelReady := True, currentState := READY\<rparr>"

definition full_cache :: "(string \<times> embedding) list" where
  "full_cache = map (\<lambda>n. (replicate n (CHR ''k''), [real n])) [0 ..< 500]"

definition full_processor :: processor where
  "full_processor = ready_processor\<lparr>embeddingCache := full_cache\<rparr>"

text \<open>The simple processor, ready, and 501 distinct texts.\<close>

definition simple_ready :: simple_processor where
  "simple_ready = \<lparr>s_modelLoaded = True, s_modelReady = True, s_embeddingCache = []\<rparr>"

definition many_texts :: "string list" where
  "many_texts = map (\<lambda>n. replicate n (CHR ''k'')) [0 ..< 501]"

text \<open>The pseudo-embedding of the simple processor, for the examples.\<close>

definition demo_pseudo :: "string \<Rightarrow> embedding" where
  "demo_pseudo text = [real (length text)]"

text \<open>
  A host for the examples. The URL parser knows the URLs that occur in them: those with the
  scheme https have the host name written in them, those with the scheme about parse with
  an empty host name, and a string with no scheme in front (as \<open>nowhere\<close> or
  \<open>/local/page:1\<close>) does not parse. The titles and domains of the examples are ASCII,
  where the case mappings change the letters A to Z and a to z and \<open>trim\<close> strips
  the space and the characters 9 to 13.
\<close>

definition demo_hostname :: "string \<Rightarrow> string option" where
  "demo_hostname u =
     map_of [(''https://zzz.io/'', ''zzz.io''), (''https://qqq.io/1'', ''qqq.io''),
             (''https://qqq.io/2'', ''qqq.io''), (''https://www.github.com/a'', ''www.github.com''),
             (''https://github.com/b'', ''github.com''), (''https://a.example/'', ''a.example''),
             (''https://b.example/'', ''b.example''), (''https://c.example/'', ''c.example''),
             (''https://foo.www.example.com/'', ''foo.www.example.com''),
             (''https://foo.example.com/'', ''foo.example.com''),
             (''about:blank'', []), (''about:config'', [])] u"

definition lower_char :: "char \<Rightarrow> char" where
  "lower_char c =
     (case map_of (zip ''ABCDEFGHIJKLMNOPQRSTUVWXYZ'' ''abcdefghijklmnopqrstuvwxyz'') c of
        Some l \<Rightarrow> l | None \<Rightarrow> c)"

definition upper_char :: "char \<Rightarrow> char" where
  "upper_char c =
     (case map_of (zip ''abcdefghijklmnopqrstuvwxyz'' ''ABCDEFGHIJKLMNOPQRSTUVWXYZ'') c of
        Some l \<Rightarrow> l | None \<Rightarrow> c)"

definition is_space :: "char \<Rightarrow> bool" where
  "is_space c = (c \<in> set [CHR 0x20, CHR 0x09, CHR 0x0A, CHR 0x0B, CHR 0x0C, CHR 0x0D])"

definition demo_host :: host where
  "demo_host =
     \<lparr>hostname = demo_hostname, toLowerCase = map lower_char, toUpperCase = map upper_char,
      trim = (\<lambda>s. rev (dropWhile is_space (rev (dropWhile is_space s))))\<rparr>"

definition three_tabs :: "tab list" where
  "three_tabs =
     [mk_tab 1 ''Alpha'' ''https://zzz.io/'', mk_tab 2 ''Beta'' ''https://qqq.io/1'',
      mk_tab 3 ''Gamma'' ''https://qqq.io/2'']"

text \<open>
  Seven tabs: two of one domain, one alone, two with URLs of the scheme about, and two whose
  url does not parse.
\<close>

definition mixed_tabs :: "tab list" where
  "mixed_tabs =
     [mk_tab 1 ''Repo'' ''https://www.github.com/a'', mk_tab 2 ''Notes'' ''about:blank'',
      mk_tab 3 ''Issues'' ''https://github.com/b'', mk_tab 4 ''Alpha'' ''https://zzz.io/'',
      mk_tab 5 ''Blank'' ''about:config'', mk_tab 6 ''One'' ''/local/page:1'',
      mk_tab 7 ''Two'' ''/local/page:2'']"

text \<open>Two tabs of different hosts, one with a label \<open>www\<close> that is not the first.\<close>

definition www_tabs :: "tab list" where
  "www_tabs =
     [mk_tab 1 ''Guide'' ''https://foo.www.example.com/'', mk_tab 2 ''Home'' ''https://foo.example.com/'']"

text \<open>Three tabs; the text of the second is \<open>''broken''\<close>, which \<open>session_ok\<close> fails to embed.\<close>

definition failing_tabs :: "tab list" where
  "failing_tabs =
     [mk_tab 1 ''A'' ''https://a.example/'', mk_tab 2 ''broken'' ''nowhere'',
      mk_tab 3 ''C'' ''https://c.example/'']"

section \<open>Facts about the clustering loop\<close>

text \<open>The equations that run the loop on a concrete input.\<close>

lemmas cluster_eval = cluster_def cluster_in_def as_numbers_def cluster_with_def seed_step_def
  scan_step_def upt_rec calculateAverageSimilarity_def cosineSimilarity_def Let_def
  exact_def js_gt_def js_add_def js_mul_def js_sqrt_def js_div_def

subsection \<open>Every index ends up in \<open>assigned\<close>\<close>

lemma scan_step_assigned_mono: "snd st \<subseteq> snd (scan_step ar cosine items th st j)"
  by (cases st) (auto simp: scan_step_def)

lemma foldl_scan_assigned_mono: "snd st \<subseteq> snd (foldl (scan_step ar cosine items th) st js)"
proof (induction js arbitrary: st)
  case Nil
  show ?case by simp
next
  case (Cons j js)
  have "snd st \<subseteq> snd (scan_step ar cosine items th st j)"
    by (rule scan_step_assigned_mono)
  also have "\<dots> \<subseteq> snd (foldl (scan_step ar cosine items th) (scan_step ar cosine items th st j) js)"
    by (rule Cons.IH)
  finally show ?case by simp
qed

lemma seed_step_assigned: "insert i (snd st) \<subseteq> snd (seed_step ar cosine items th st i)"
proof (cases st)
  case (Pair gs assigned)
  show ?thesis
  proof (cases "i \<in> assigned")
    case True
    with Pair show ?thesis by (simp add: seed_step_def)
  next
    case False
    let ?r = "foldl (scan_step ar cosine items th)
                (\<lparr>tabs = [fst (items ! i)], embeddings = [snd (items ! i)], indices = [i]\<rparr>, insert i assigned)
                [i + 1 ..< length items]"
    have "insert i assigned \<subseteq> snd ?r"
      using foldl_scan_assigned_mono [where st = "(\<lparr>tabs = [fst (items ! i)], embeddings = [snd (items ! i)], indices = [i]\<rparr>, insert i assigned)"]
      by simp
    with Pair False show ?thesis
      by (auto simp: seed_step_def split: prod.splits)
  qed
qed

lemma foldl_seed_assigned: "snd st \<union> set js \<subseteq> snd (foldl (seed_step ar cosine items th) st js)"
proof (induction js arbitrary: st)
  case Nil
  show ?case by simp
next
  case (Cons i js)
  have "insert i (snd st) \<subseteq> snd (seed_step ar cosine items th st i)"
    by (rule seed_step_assigned)
  moreover have "snd (seed_step ar cosine items th st i) \<union> set js
      \<subseteq> snd (foldl (seed_step ar cosine items th) (seed_step ar cosine items th st i) js)"
    by (rule Cons.IH)
  ultimately show ?case by auto
qed

lemma cluster_with_ungrouped_empty: "ungrouped (cluster_with ar cosine items th) = []"
proof -
  obtain gs assigned where r: "foldl (seed_step ar cosine items th) ([], {}) [0 ..< length items] = (gs, assigned)"
    by (cases "foldl (seed_step ar cosine items th) ([], {}) [0 ..< length items]")
  have "set [0 ..< length items] \<subseteq> assigned"
    using foldl_seed_assigned [of "([], {})" "[0 ..< length items]" ar cosine items th] r by simp
  then have "filter (\<lambda>(t, i). i \<notin> assigned) (zip (map fst items) [0 ..< length items]) = []"
    by (auto simp: filter_empty_conv dest!: set_zip_rightD)
  with r show ?thesis by (simp add: cluster_with_def)
qed

text \<open>
  C1 (partition into groups and ungrouped). The claim holds for the groups; it fails for the
  tabs that stay alone. The seed of every group is put into \<open>assigned\<close> before the
  size of its group is known, so \<open>ungrouped\<close>, the tabs whose index is not in
  \<open>assigned\<close>, is always empty, and a tab that stays alone is in neither list. Here
  the code is run on one tab, in both processors, and on \<open>four_items\<close> at threshold
  0.4, where the first two tabs form the only group and the other two are in neither list.
\<close>

theorem lone_tab_is_lost:
  "cluster lone_item (1/2) = \<lparr>groups = [], ungrouped = []\<rparr>
   \<and> Simple_cluster lone_item (1/2) = \<lparr>groups = [], ungrouped = []\<rparr>
   \<and> map indices (groups (cluster four_items (2/5))) = [[0, 1]]
   \<and> ungrouped (cluster four_items (2/5)) = []"
  by (simp add: cluster_eval Simple_cluster_def lone_item_def four_items_def)

subsection \<open>The greedy pass\<close>

lemma greedy_scan_rest_subset: "set (snd (greedy_scan joins grp cs)) \<subseteq> set cs"
  by (induction cs arbitrary: grp) auto

lemma greedy_scan_rest_distinct: "distinct cs \<Longrightarrow> distinct (snd (greedy_scan joins grp cs))"
proof (induction cs arbitrary: grp)
  case Nil
  show ?case by simp
next
  case (Cons c cs)
  then show ?case
    using greedy_scan_rest_subset [of joins grp cs] by auto
qed

lemma greedy_scan_group_length: "length grp \<le> length (fst (greedy_scan joins grp cs))"
proof (induction cs arbitrary: grp)
  case Nil
  show ?case by simp
next
  case (Cons c cs)
  show ?case
  proof (cases "joins grp c")
    case True
    have "length (grp @ [c]) \<le> length (fst (greedy_scan joins (grp @ [c]) cs))"
      by (rule Cons.IH)
    with True show ?thesis by simp
  next
    case False
    with Cons.IH [of grp] show ?thesis by simp
  qed
qed

lemma greedy_scan_group_set:
  "set (fst (greedy_scan joins grp cs)) \<union> set (snd (greedy_scan joins grp cs)) = set grp \<union> set cs"
  by (induction cs arbitrary: grp) auto

lemma greedy_scan_none_joins:
  "\<forall>c \<in> set cs. \<not> joins grp c \<Longrightarrow> greedy_scan joins grp cs = (grp, cs)"
  by (induction cs) auto

lemma greedy_scan_same_length:
  "length (fst (greedy_scan joins grp cs)) = length grp \<Longrightarrow> \<forall>c \<in> set cs. \<not> joins grp c"
proof (induction cs)
  case Nil
  show ?case by simp
next
  case (Cons c cs)
  show ?case
  proof (cases "joins grp c")
    case True
    have "length (grp @ [c]) \<le> length (fst (greedy_scan joins (grp @ [c]) cs))"
      by (rule greedy_scan_group_length)
    with True Cons.prems show ?thesis by simp
  next
    case False
    with Cons show ?thesis by simp
  qed
qed

subsection \<open>The inner loop is a greedy scan\<close>

lemma scan_step_group_of:
  "scan_step ar cosine items th (group_of items is, A) j =
     (if j \<in> A then (group_of items is, A)
      else if index_joins ar cosine items th is j then (group_of items (is @ [j]), insert j A)
      else (group_of items is, A))"
  by (simp add: scan_step_def group_of_def index_joins_def)

lemma scan_step_assigned_upper: "snd (scan_step ar cosine items th st j) \<subseteq> insert j (snd st)"
  by (cases st) (auto simp: scan_step_def)

lemma foldl_scan_assigned_upper: "snd (foldl (scan_step ar cosine items th) st js) \<subseteq> snd st \<union> set js"
proof (induction js arbitrary: st)
  case Nil
  show ?case by simp
next
  case (Cons j js)
  have "snd (foldl (scan_step ar cosine items th) (scan_step ar cosine items th st j) js)
          \<subseteq> snd (scan_step ar cosine items th st j) \<union> set js"
    by (rule Cons.IH)
  with scan_step_assigned_upper [of ar cosine items th st j] show ?case by auto
qed

lemma foldl_scan_greedy:
  assumes "distinct js"
  shows "fst (foldl (scan_step ar cosine items th) (group_of items is, A) js)
           = group_of items (fst (greedy_scan (index_joins ar cosine items th) is (filter (\<lambda>j. j \<notin> A) js)))
         \<and> filter (\<lambda>j. j \<notin> snd (foldl (scan_step ar cosine items th) (group_of items is, A) js)) js
           = snd (greedy_scan (index_joins ar cosine items th) is (filter (\<lambda>j. j \<notin> A) js))"
  using assms
proof (induction js arbitrary: "is" A)
  case Nil
  show ?case by simp
next
  case (Cons j js)
  let ?J = "index_joins ar cosine items th"
  let ?step = "scan_step ar cosine items th"
  from Cons.prems have dj: "j \<notin> set js" and djs: "distinct js" by simp_all
  show ?case
  proof (cases "j \<in> A")
    case True
    have "A \<subseteq> snd (foldl ?step (group_of items is, A) js)"
      using foldl_scan_assigned_mono [of "(group_of items is, A)" ar cosine items th js] by simp
    with True have "j \<in> snd (foldl ?step (group_of items is, A) js)" by auto
    with True Cons.IH [OF djs, of "is" A] show ?thesis
      by (simp add: scan_step_group_of)
  next
    case notA: False
    show ?thesis
    proof (cases "?J is j")
      case True
      have f: "filter (\<lambda>k. k \<notin> insert j A) js = filter (\<lambda>k. k \<notin> A) js"
        using dj by (intro filter_cong) auto
      have "insert j A \<subseteq> snd (foldl ?step (group_of items (is @ [j]), insert j A) js)"
        using foldl_scan_assigned_mono [of "(group_of items (is @ [j]), insert j A)" ar cosine items th js] by simp
      then have "j \<in> snd (foldl ?step (group_of items (is @ [j]), insert j A) js)" by auto
      with notA True Cons.IH [OF djs, of "is @ [j]" "insert j A"] f show ?thesis
        by (simp add: scan_step_group_of)
    next
      case False
      have "snd (foldl ?step (group_of items is, A) js) \<subseteq> A \<union> set js"
        using foldl_scan_assigned_upper [of ar cosine items th "(group_of items is, A)" js] by simp
      with notA dj have "j \<notin> snd (foldl ?step (group_of items is, A) js)" by auto
      with notA False Cons.IH [OF djs, of "is" A] show ?thesis
        by (simp add: scan_step_group_of)
    qed
  qed
qed

subsection \<open>The outer loop is the greedy pass\<close>

lemma length_tabs_group_of: "length (tabs (group_of items is)) = length is"
  by (simp add: group_of_def)

lemma foldl_seed_greedy:
  "fst (foldl (seed_step ar cosine items th) (gs, A) [i ..< length items])
     = gs @ map (group_of items)
              (filter (\<lambda>g. 2 \<le> length g)
                 (greedy_groups (index_joins ar cosine items th) (filter (\<lambda>j. j \<notin> A) [i ..< length items])))"
proof (induction "length items - i" arbitrary: i gs A)
  case 0
  then show ?case by simp
next
  case (Suc d)
  let ?J = "index_joins ar cosine items th"
  let ?n = "length items"
  from Suc.hyps(2) have lt: "i < ?n" by simp
  then have upt: "[i ..< ?n] = i # [Suc i ..< ?n]" by (simp add: upt_conv_Cons)
  from Suc.hyps(2) have d: "d = ?n - Suc i" by simp
  show ?case
  proof (cases "i \<in> A")
    case True
    with Suc.hyps(1) [OF d, of gs A] show ?thesis
      by (simp add: upt seed_step_def)
  next
    case False
    let ?F = "filter (\<lambda>j. j \<notin> A) [Suc i ..< ?n]"
    let ?r = "greedy_scan ?J [i] ?F"
    let ?st = "foldl (scan_step ar cosine items th) (group_of items [i], insert i A) [Suc i ..< ?n]"
    have f: "filter (\<lambda>j. j \<notin> insert i A) [Suc i ..< ?n] = ?F"
      by (intro filter_cong) auto
    have inner: "fst ?st = group_of items (fst ?r)" "filter (\<lambda>j. j \<notin> snd ?st) [Suc i ..< ?n] = snd ?r"
      using foldl_scan_greedy [of "[Suc i ..< ?n]" ar cosine items th "[i]" "insert i A"] f by simp_all
    have seed: "seed_step ar cosine items th (gs, A) i
                  = (if 2 \<le> length (fst ?r) then gs @ [group_of items (fst ?r)] else gs, snd ?st)"
    proof -
      have g1: "group_of items [i] = \<lparr>tabs = [fst (items ! i)], embeddings = [snd (items ! i)], indices = [i]\<rparr>"
        by (simp add: group_of_def)
      obtain grp A' where st: "?st = (grp, A')" by (cases ?st)
      with inner(1) have grp: "grp = group_of items (fst ?r)" by simp
      have "seed_step ar cosine items th (gs, A) i
              = (if 2 \<le> length (tabs grp) then gs @ [grp] else gs, A')"
        using False st by (simp add: seed_step_def g1 [symmetric])
      with grp st show ?thesis by (simp add: length_tabs_group_of)
    qed
    have "fst (foldl (seed_step ar cosine items th) (gs, A) [i ..< ?n])
            = fst (foldl (seed_step ar cosine items th)
                     (if 2 \<le> length (fst ?r) then gs @ [group_of items (fst ?r)] else gs, snd ?st)
                     [Suc i ..< ?n])"
      by (simp add: upt seed)
    also have "\<dots> = (if 2 \<le> length (fst ?r) then gs @ [group_of items (fst ?r)] else gs)
                      @ map (group_of items) (filter (\<lambda>g. 2 \<le> length g) (greedy_groups ?J (snd ?r)))"
      using Suc.hyps(1) [OF d, of "if 2 \<le> length (fst ?r) then gs @ [group_of items (fst ?r)] else gs" "snd ?st"]
      by (simp add: inner(2))
    also have "\<dots> = gs @ map (group_of items)
                          (filter (\<lambda>g. 2 \<le> length g) (greedy_groups ?J (filter (\<lambda>j. j \<notin> A) [i ..< ?n])))"
      using False by (simp add: upt)
    finally show ?thesis .
  qed
qed

lemma groups_cluster_with:
  "groups (cluster_with ar cosine items th)
     = map (group_of items)
         (filter (\<lambda>g. 2 \<le> length g) (greedy_groups (index_joins ar cosine items th) [0 ..< length items]))"
proof -
  have "groups (cluster_with ar cosine items th)
          = fst (foldl (seed_step ar cosine items th) ([], {}) [0 ..< length items])"
    by (simp add: cluster_with_def split: prod.splits)
  then show ?thesis
    by (simp add: foldl_seed_greedy)
qed

subsection \<open>From indices to items\<close>

lemma greedy_scan_map:
  assumes "\<And>g c. J g c = J' (map f g) (f c)"
  shows "greedy_scan J' (map f grp) (map f cs)
           = (map f (fst (greedy_scan J grp cs)), map f (snd (greedy_scan J grp cs)))"
proof (induction cs arbitrary: grp)
  case Nil
  show ?case by simp
next
  case (Cons c cs)
  show ?case
  proof (cases "J grp c")
    case True
    then have "J' (map f grp) (f c)" using assms by simp
    with True Cons.IH [of "grp @ [c]"] show ?thesis by simp
  next
    case False
    then have "\<not> J' (map f grp) (f c)" using assms by simp
    with False Cons.IH [of grp] show ?thesis by simp
  qed
qed

lemma greedy_groups_map:
  assumes "\<And>g c. J g c = J' (map f g) (f c)"
  shows "greedy_groups J' (map f xs) = map (map f) (greedy_groups J xs)"
proof (induction xs rule: length_induct)
  case (1 xs)
  show ?case
  proof (cases xs)
    case Nil
    then show ?thesis by simp
  next
    case (Cons s rest)
    have sc: "greedy_scan J' [f s] (map f rest)
                = (map f (fst (greedy_scan J [s] rest)), map f (snd (greedy_scan J [s] rest)))"
      using greedy_scan_map [of J J' f "[s]" rest] assms by simp
    have "length (snd (greedy_scan J [s] rest)) < length xs"
      using greedy_scan_rest_length [of J "[s]" rest] Cons by simp
    with "1.IH" have "greedy_groups J' (map f (snd (greedy_scan J [s] rest)))
                        = map (map f) (greedy_groups J (snd (greedy_scan J [s] rest)))" by blast
    with Cons sc show ?thesis by simp
  qed
qed

lemma index_joins_item_joins:
  "index_joins ar cosine items th is j = item_joins ar cosine th (map ((!) items) is) (items ! j)"
  by (simp add: index_joins_def item_joins_def comp_def)

lemma zip_group_of: "zip (tabs (group_of items is)) (embeddings (group_of items is)) = map ((!) items) is"
  by (induction "is") (simp_all add: group_of_def)

text \<open>
  The groups that the loop emits are the groups of the greedy pass over the items with at
  least two members, where a candidate joins when the code's average similarity exceeds the
  threshold.
\<close>

lemma cluster_with_groups_greedy:
  "map (\<lambda>g. zip (tabs g) (embeddings g)) (groups (cluster_with ar cosine items th))
     = filter (\<lambda>g. 2 \<le> length g) (greedy_groups (item_joins ar cosine th) items)"
proof -
  let ?J = "index_joins ar cosine items th"
  have m: "greedy_groups (item_joins ar cosine th) (map ((!) items) [0 ..< length items])
             = map (map ((!) items)) (greedy_groups ?J [0 ..< length items])"
    by (rule greedy_groups_map) (rule index_joins_item_joins)
  have "map (\<lambda>g. zip (tabs g) (embeddings g)) (groups (cluster_with ar cosine items th))
          = map (map ((!) items)) (filter (\<lambda>g. 2 \<le> length g) (greedy_groups ?J [0 ..< length items]))"
    by (simp add: groups_cluster_with comp_def zip_group_of)
  also have "\<dots> = filter (\<lambda>g. 2 \<le> length g) (map (map ((!) items)) (greedy_groups ?J [0 ..< length items]))"
    by (simp add: filter_map comp_def)
  also have "\<dots> = filter (\<lambda>g. 2 \<le> length g) (greedy_groups (item_joins ar cosine th) items)"
    by (simp add: m [symmetric] map_nth)
  finally show ?thesis .
qed

subsection \<open>The greedy pass depends on the test only where it is used\<close>

lemma greedy_scan_cong:
  assumes "\<And>g c. g \<noteq> [] \<Longrightarrow> set g \<subseteq> S \<Longrightarrow> c \<in> S \<Longrightarrow> J g c = J' g c"
    and "grp \<noteq> []" and "set grp \<subseteq> S" and "set cs \<subseteq> S"
  shows "greedy_scan J grp cs = greedy_scan J' grp cs"
  using assms(2-)
proof (induction cs arbitrary: grp)
  case Nil
  show ?case by simp
next
  case (Cons c cs)
  from Cons.prems have eq: "J grp c = J' grp c" by (intro assms(1)) auto
  show ?case
  proof (cases "J grp c")
    case True
    with eq Cons.IH [of "grp @ [c]"] Cons.prems show ?thesis by simp
  next
    case False
    with eq Cons.IH [of grp] Cons.prems show ?thesis by simp
  qed
qed

lemma greedy_groups_cong:
  assumes "\<And>g c. g \<noteq> [] \<Longrightarrow> set g \<subseteq> S \<Longrightarrow> c \<in> S \<Longrightarrow> J g c = J' g c"
    and "set xs \<subseteq> S"
  shows "greedy_groups J xs = greedy_groups J' xs"
  using assms(2)
proof (induction xs rule: length_induct)
  case (1 xs)
  show ?case
  proof (cases xs)
    case Nil
    then show ?thesis by simp
  next
    case (Cons s rest)
    have sc: "greedy_scan J [s] rest = greedy_scan J' [s] rest"
      using "1.prems" Cons by (intro greedy_scan_cong [where S = S] assms(1)) auto
    have "set (snd (greedy_scan J [s] rest)) \<subseteq> S"
      using greedy_scan_rest_subset [of J "[s]" rest] "1.prems" Cons by auto
    moreover have "length (snd (greedy_scan J [s] rest)) < length xs"
      using greedy_scan_rest_length [of J "[s]" rest] Cons by simp
    ultimately have "greedy_groups J (snd (greedy_scan J [s] rest))
                       = greedy_groups J' (snd (greedy_scan J [s] rest))"
      using "1.IH" by blast
    with Cons sc show ?thesis by simp
  qed
qed

subsection \<open>Members of the groups of the greedy pass\<close>

lemma greedy_groups_members: "\<Union> (set ` set (greedy_groups J xs)) = set xs"
proof (induction xs rule: length_induct)
  case (1 xs)
  show ?case
  proof (cases xs)
    case Nil
    then show ?thesis by simp
  next
    case (Cons s rest)
    have "length (snd (greedy_scan J [s] rest)) < length xs"
      using greedy_scan_rest_length [of J "[s]" rest] Cons by simp
    with "1.IH" have "\<Union> (set ` set (greedy_groups J (snd (greedy_scan J [s] rest))))
                        = set (snd (greedy_scan J [s] rest))" by blast
    with Cons greedy_scan_group_set [of J "[s]" rest] show ?thesis by simp
  qed
qed

lemma greedy_scan_never_joins:
  assumes "\<And>g. \<not> J g z"
  shows "z \<in> set (fst (greedy_scan J grp cs)) \<Longrightarrow> z \<in> set grp"
proof (induction cs arbitrary: grp)
  case Nil
  then show ?case by simp
next
  case (Cons c cs)
  show ?case
  proof (cases "J grp c")
    case True
    with Cons.prems have "z \<in> set (fst (greedy_scan J (grp @ [c]) cs))" by simp
    then have "z \<in> set (grp @ [c])" by (rule Cons.IH)
    moreover from True assms have "c \<noteq> z" by auto
    ultimately show ?thesis by simp
  next
    case False
    with Cons.prems Cons.IH [of grp] show ?thesis by simp
  qed
qed

lemma greedy_groups_loner:
  assumes "\<And>g. \<not> J g z" and "\<And>c. \<not> J [z] c" and "distinct xs"
  shows "\<forall>g \<in> set (greedy_groups J xs). z \<in> set g \<longrightarrow> g = [z]"
  using assms(3)
proof (induction xs rule: length_induct)
  case (1 xs)
  show ?case
  proof (cases xs)
    case Nil
    then show ?thesis by simp
  next
    case (Cons s rest)
    let ?r = "greedy_scan J [s] rest"
    have len: "length (snd ?r) < length xs"
      using greedy_scan_rest_length [of J "[s]" rest] Cons by simp
    have dist: "distinct (snd ?r)"
      using "1.prems" Cons by (intro greedy_scan_rest_distinct) simp
    from "1.IH" len dist have ih: "\<forall>g \<in> set (greedy_groups J (snd ?r)). z \<in> set g \<longrightarrow> g = [z]"
      by blast
    have hd: "z \<in> set (fst ?r) \<longrightarrow> fst ?r = [z]"
    proof
      assume "z \<in> set (fst ?r)"
      then have "z \<in> set [s]"
        using greedy_scan_never_joins [of J z "[s]" rest] assms(1) by blast
      then have "s = z" by simp
      moreover have "greedy_scan J [z] rest = ([z], rest)"
        using assms(2) by (intro greedy_scan_none_joins) simp
      ultimately show "fst ?r = [z]" by simp
    qed
    from Cons ih hd show ?thesis by simp
  qed
qed

subsection \<open>The groups are disjoint\<close>

lemma greedy_scan_distinct:
  "distinct (grp @ cs) \<Longrightarrow> distinct (fst (greedy_scan J grp cs) @ snd (greedy_scan J grp cs))"
proof (induction cs arbitrary: grp)
  case Nil
  then show ?case by simp
next
  case (Cons c cs)
  show ?case
  proof (cases "J grp c")
    case True
    from Cons.prems have "distinct ((grp @ [c]) @ cs)" by simp
    from Cons.IH [OF this] True show ?thesis by simp
  next
    case False
    from Cons.prems have d: "distinct (grp @ cs)" and c: "c \<notin> set grp \<union> set cs" by auto
    from c greedy_scan_group_set [of J grp cs]
    have "c \<notin> set (fst (greedy_scan J grp cs)) \<union> set (snd (greedy_scan J grp cs))" by simp
    with Cons.IH [OF d] False show ?thesis by simp
  qed
qed

lemma greedy_groups_distinct: "distinct xs \<Longrightarrow> distinct (concat (greedy_groups J xs))"
proof (induction xs rule: length_induct)
  case (1 xs)
  show ?case
  proof (cases xs)
    case Nil
    then show ?thesis by simp
  next
    case (Cons s rest)
    let ?r = "greedy_scan J [s] rest"
    from "1.prems" Cons have d: "distinct (fst ?r @ snd ?r)"
      by (intro greedy_scan_distinct) simp
    have "length (snd ?r) < length xs"
      using greedy_scan_rest_length [of J "[s]" rest] Cons by simp
    with "1.IH" d have "distinct (concat (greedy_groups J (snd ?r)))" by simp
    moreover have "set (concat (greedy_groups J (snd ?r))) = set (snd ?r)"
      using greedy_groups_members [of J "snd ?r"] by simp
    ultimately show ?thesis using Cons d by auto
  qed
qed

lemma distinct_concat_filter: "distinct (concat xss) \<Longrightarrow> distinct (concat (filter P xss))"
  by (induction xss) auto

text \<open>
  What holds of the groups for every input: no index is in two groups or twice in one, every
  group has at least 2 tabs, and a group holds the tabs and embeddings at its indices.
\<close>

lemma cluster_with_groups_disjoint:
  "distinct (concat (map indices (groups (cluster_with ar cosine items th))))
   \<and> (\<forall>g \<in> set (groups (cluster_with ar cosine items th)).
         2 \<le> length (tabs g) \<and> set (indices g) \<subseteq> {0 ..< length items}
         \<and> g = group_of items (indices g))"
proof -
  let ?gg = "greedy_groups (index_joins ar cosine items th) [0 ..< length items]"
  have "indices \<circ> group_of items = id"
    by (rule ext) (simp add: group_of_def)
  then have i: "map (indices \<circ> group_of items) xss = xss" for xss
    by simp
  have "distinct (concat ?gg)"
    by (rule greedy_groups_distinct) simp
  then have "distinct (concat (filter (\<lambda>g. 2 \<le> length g) ?gg))"
    by (rule distinct_concat_filter)
  then have a: "distinct (concat (map indices (groups (cluster_with ar cosine items th))))"
    by (simp add: groups_cluster_with i)
  have "\<forall>is \<in> set ?gg. set is \<subseteq> {0 ..< length items}"
    using greedy_groups_members [of "index_joins ar cosine items th" "[0 ..< length items]"] by auto
  then have b: "\<forall>g \<in> set (groups (cluster_with ar cosine items th)).
         2 \<le> length (tabs g) \<and> set (indices g) \<subseteq> {0 ..< length items}
         \<and> g = group_of items (indices g)"
    by (auto simp: groups_cluster_with group_of_def)
  from a b show ?thesis by simp
qed

subsection \<open>The cosine of the code and the cosine of the specification\<close>

lemma cosine_loop_same_length:
  "length a = length b \<Longrightarrow>
   cosine_loop ar a b (d, na, nb)
     = (foldl (f_add ar) d (map2 (f_mul ar) a b),
        foldl (f_add ar) na (map (\<lambda>x. f_mul ar x x) a),
        foldl (f_add ar) nb (map (\<lambda>x. f_mul ar x x) b))"
proof (induction a b arbitrary: d na nb rule: list_induct2)
  case Nil
  show ?case by simp
next
  case (Cons x xs y ys)
  show ?case by (simp add: Cons.IH)
qed

lemma cosine_loop_spec:
  assumes "length a = length b"
  shows "cosine_loop ar a b (f_zero ar, f_zero ar, f_zero ar)
           = (spec_dot ar a b, spec_sum ar (map (\<lambda>x. f_mul ar x x) a),
              spec_sum ar (map (\<lambda>x. f_mul ar x x) b))"
  using cosine_loop_same_length [OF assms] by (simp add: spec_dot_def spec_sum_def)

lemma cosineSimilarity_spec:
  assumes "length a = length b" and "norms_multiply ar a b"
  shows "cosineSimilarity ar a b = spec_cosine ar a b"
proof -
  let ?den = "f_mul ar (spec_norm ar a) (spec_norm ar b)"
  have c: "cosineSimilarity ar a b
             = (if f_gt ar ?den (f_zero ar) then f_div ar (spec_dot ar a b) ?den else f_zero ar)"
    by (simp add: cosineSimilarity_def cosine_loop_spec [OF assms(1)] Let_def spec_norm_def)
  from assms(2) have g: "f_gt ar ?den (f_zero ar)
      = (spec_norm ar a \<noteq> f_zero ar \<and> spec_norm ar b \<noteq> f_zero ar)"
    by (simp add: norms_multiply_def)
  show ?thesis
    unfolding c g by (simp add: spec_cosine_def)
qed

lemma calculateAverageSimilarity_spec:
  assumes "\<And>x. x \<in> set es \<Longrightarrow> cosineSimilarity ar e x = spec_cosine ar e x"
  shows "calculateAverageSimilarity ar (cosineSimilarity ar) e es = spec_mean_similarity ar e es"
proof -
  have m: "map (cosineSimilarity ar e) es = map (spec_cosine ar e) es"
    using assms by (intro map_cong) auto
  show ?thesis
    unfolding calculateAverageSimilarity_def Let_def spec_mean_similarity_def spec_sum_def m
    by simp
qed

lemma item_joins_spec:
  assumes "\<forall>x \<in> set grp. length (snd x) = d \<and> norms_multiply ar (snd c) (snd x)"
    and "length (snd c) = d"
  shows "item_joins ar (cosineSimilarity ar) th grp c = spec_joins ar th grp c"
proof -
  have "calculateAverageSimilarity ar (cosineSimilarity ar) (snd c) (map snd grp)
          = spec_mean_similarity ar (snd c) (map snd grp)"
    using assms by (intro calculateAverageSimilarity_spec cosineSimilarity_spec) auto
  then show ?thesis
    by (simp add: item_joins_def spec_joins_def)
qed

text \<open>The greedy pass with the test of the code is the greedy pass with the test of the specification.\<close>

lemma greedy_groups_spec:
  assumes "\<forall>x \<in> set items. length (snd x) = d"
    and "\<forall>x \<in> set items. \<forall>y \<in> set items. norms_multiply ar (snd x) (snd y)"
  shows "greedy_groups (item_joins ar (cosineSimilarity ar) threshold) items
           = greedy_groups (spec_joins ar threshold) items"
proof (rule greedy_groups_cong [where S = "set items"])
  fix g c
  assume "g \<noteq> []" "set g \<subseteq> set items" "c \<in> set items"
  with assms show "item_joins ar (cosineSimilarity ar) threshold g c = spec_joins ar threshold g c"
    by (intro item_joins_spec [where d = d]) auto
qed simp

text \<open>
  C2 (the loop is the specified greedy algorithm). In every arithmetic, so also in that of
  the doubles: for embeddings of one length, the groups that the loop emits, as lists of
  (tab, embedding), are the groups of at least two members of the greedy pass in which a
  candidate joins exactly when the mean of the cosines between its embedding and the
  embeddings now in the group exceeds the threshold, the cosine being
  \<open>dot(a,b) / (|a| |b|)\<close> and 0 when a norm is 0. The second hypothesis is what
  lets the code test the product of the norms where the specification tests each norm: the
  product of the norms of two of the embeddings is greater than 0 exactly if neither is 0.
\<close>

theorem cluster_is_spec_greedy:
  assumes "\<forall>x \<in> set items. length (snd x) = d"
    and "\<forall>x \<in> set items. \<forall>y \<in> set items. norms_multiply ar (snd x) (snd y)"
  shows "map (\<lambda>g. zip (tabs g) (embeddings g)) (groups (cluster_in ar items threshold))
           = spec_groups ar items threshold"
  using greedy_groups_spec [OF assms, of threshold]
  by (simp add: cluster_in_def cluster_with_groups_greedy spec_groups_def)

subsection \<open>Facts about the arithmetic without rounding\<close>

lemma exact_fields:
  "f_zero exact = Some 0" "f_nan exact = None" "f_add exact = js_add" "f_mul exact = js_mul"
  "f_div exact = js_div" "f_sqrt exact = js_sqrt" "f_gt exact = js_gt"
  "f_length exact = (\<lambda>n. Some (real n))"
  by (simp_all add: exact_def)

lemma js_add_Some: "js_add (Some a) (Some b) = Some (a + b)"
  by (simp add: js_add_def)

lemma js_mul_Some: "js_mul (Some a) (Some b) = Some (a * b)"
  by (simp add: js_mul_def)

lemma dot_exact:
  "foldl js_add (Some d) (map2 js_mul (map Some a) (map Some b)) = Some (d + sum_list (map2 (*) a b))"
proof (induction a arbitrary: b d)
  case Nil
  show ?case by simp
next
  case (Cons x a)
  show ?case
  proof (cases b)
    case Nil
    then show ?thesis by simp
  next
    case b: (Cons y b')
    have "foldl js_add (Some d) (map2 js_mul (map Some (x # a)) (map Some (y # b')))
            = foldl js_add (Some (d + x * y)) (map2 js_mul (map Some a) (map Some b'))"
      by (simp only: list.map zip_Cons_Cons foldl_Cons prod.case js_add_Some js_mul_Some)
    also have "\<dots> = Some (d + x * y + sum_list (map2 (*) a b'))"
      by (rule Cons.IH)
    finally show ?thesis
      unfolding b by (simp add: algebra_simps)
  qed
qed

lemma squares_exact:
  "foldl js_add (Some d) (map (\<lambda>x. js_mul x x) (map Some a)) = Some (d + sum_list (map (\<lambda>x. x * x) a))"
proof (induction a arbitrary: d)
  case Nil
  show ?case by simp
next
  case (Cons x a)
  have "foldl js_add (Some d) (map (\<lambda>x. js_mul x x) (map Some (x # a)))
          = foldl js_add (Some (d + x * x)) (map (\<lambda>x. js_mul x x) (map Some a))"
    by (simp only: list.map foldl_Cons js_add_Some js_mul_Some)
  also have "\<dots> = Some (d + x * x + sum_list (map (\<lambda>x. x * x) a))"
    by (rule Cons.IH)
  finally show ?case
    by (simp add: algebra_simps)
qed

lemma sum_squares_nonneg: "0 \<le> sum_list (map (\<lambda>x. x * x) (a :: real list))"
  by (induction a) simp_all

text \<open>Without rounding the dot product and the norm are those of real vectors.\<close>

lemma spec_dot_exact: "spec_dot exact (map Some a) (map Some b) = Some (sum_list (map2 (*) a b))"
  unfolding spec_dot_def spec_sum_def exact_fields
  using dot_exact [of 0 a b] by simp

lemma spec_norm_exact: "spec_norm exact (map Some a) = Some (sqrt (sum_list (map (\<lambda>x. x * x) a)))"
proof -
  have "js_sqrt (foldl js_add (Some 0) (map (\<lambda>x. js_mul x x) (map Some a)))
          = Some (sqrt (sum_list (map (\<lambda>x. x * x) a)))"
    unfolding squares_exact using sum_squares_nonneg [of a] by (simp add: js_sqrt_def)
  then show ?thesis
    unfolding spec_norm_def spec_sum_def exact_fields .
qed

text \<open>Without rounding the product of two norms is positive exactly if neither is 0.\<close>

lemma norms_multiply_exact: "norms_multiply exact (map Some a) (map Some b)"
proof -
  let ?na = "sqrt (sum_list (map (\<lambda>x. x * x) a))" and ?nb = "sqrt (sum_list (map (\<lambda>x. x * x) b))"
  have "0 \<le> ?na" "0 \<le> ?nb"
    by (simp_all add: sum_squares_nonneg)
  then have "(0 < ?na * ?nb) = (?na \<noteq> 0 \<and> ?nb \<noteq> 0)"
    by (auto simp: zero_less_mult_iff less_le)
  then show ?thesis
    by (simp add: norms_multiply_def spec_norm_exact exact_fields js_mul_def js_gt_def)
qed

lemma as_numbers_snd: "x \<in> set (as_numbers items) \<Longrightarrow> \<exists>e. snd x = map Some e"
  by (auto simp: as_numbers_def)

lemma as_numbers_length:
  "\<forall>x \<in> set items. length (snd x) = d \<Longrightarrow> \<forall>x \<in> set (as_numbers items). length (snd x) = d"
  by (auto simp: as_numbers_def)

text \<open>
  So without rounding the second hypothesis holds of every item list: the groups that the
  loop emits on embeddings of one length are those of the specification's pass.
\<close>

lemma cluster_exact_is_spec_greedy:
  assumes "\<forall>x \<in> set items. length (snd x) = d"
  shows "map (\<lambda>g. zip (tabs g) (embeddings g)) (groups (cluster items threshold))
           = spec_groups exact (as_numbers items) (Some threshold)"
proof -
  have "\<forall>x \<in> set (as_numbers items). \<forall>y \<in> set (as_numbers items). norms_multiply exact (snd x) (snd y)"
  proof (intro ballI)
    fix x y
    assume "x \<in> set (as_numbers items)" "y \<in> set (as_numbers items)"
    then obtain a b where "snd x = map Some a" "snd y = map Some b"
      using as_numbers_snd by blast
    then show "norms_multiply exact (snd x) (snd y)"
      by (simp add: norms_multiply_exact)
  qed
  with as_numbers_length [OF assms]
  have "greedy_groups (item_joins exact (cosineSimilarity exact) (Some threshold)) (as_numbers items)
          = greedy_groups (spec_joins exact (Some threshold)) (as_numbers items)"
    by (rule greedy_groups_spec)
  then show ?thesis
    by (simp add: cluster_def cluster_in_def cluster_with_groups_greedy spec_groups_def)
qed

theorem cluster_is_spec_greedy_witness:
  "list_all (\<lambda>x. length (snd x) = 8) (as_numbers four_items)
   \<and> list_all (\<lambda>x. list_all (\<lambda>y. norms_multiply exact (snd x) (snd y)) (as_numbers four_items))
        (as_numbers four_items)
   \<and> map (\<lambda>g. zip (tabs g) (embeddings g)) (groups (cluster_in exact (as_numbers four_items) (Some (3/5))))
       = spec_groups exact (as_numbers four_items) (Some (3/5))
   \<and> map indices (groups (cluster_in exact (as_numbers four_items) (Some (3/5)))) = [[0, 2], [1, 3]]"
proof -
  have h1: "\<forall>x \<in> set (as_numbers four_items). length (snd x) = 8"
    by (simp add: as_numbers_def four_items_def)
  have h2: "\<forall>x \<in> set (as_numbers four_items). \<forall>y \<in> set (as_numbers four_items).
              norms_multiply exact (snd x) (snd y)"
    by (auto simp: as_numbers_def norms_multiply_exact)
  have e: "map indices (groups (cluster_in exact (as_numbers four_items) (Some (3/5)))) = [[0, 2], [1, 3]]"
    by (simp add: cluster_eval four_items_def)
  from h1 h2 e cluster_is_spec_greedy [OF h1 h2, of "Some (3/5)"] show ?thesis
    by (simp add: list_all_iff)
qed

subsection \<open>Thresholds\<close>

lemma greedy_groups_all_alone:
  assumes "\<And>g c. J2 g c \<Longrightarrow> J1 g c"
    and "\<forall>g \<in> set (greedy_groups J1 xs). length g < 2"
  shows "greedy_groups J2 xs = map (\<lambda>x. [x]) xs"
  using assms(2)
proof (induction xs)
  case Nil
  show ?case by simp
next
  case (Cons s rest)
  from Cons.prems have l: "length (fst (greedy_scan J1 [s] rest)) < 2" by simp
  have "length [s] \<le> length (fst (greedy_scan J1 [s] rest))"
    by (rule greedy_scan_group_length)
  with l have "length (fst (greedy_scan J1 [s] rest)) = length [s]" by simp
  then have none1: "\<forall>c \<in> set rest. \<not> J1 [s] c"
    by (rule greedy_scan_same_length)
  then have s1: "greedy_scan J1 [s] rest = ([s], rest)"
    by (rule greedy_scan_none_joins)
  from none1 assms(1) have "\<forall>c \<in> set rest. \<not> J2 [s] c" by blast
  then have s2: "greedy_scan J2 [s] rest = ([s], rest)"
    by (rule greedy_scan_none_joins)
  from Cons.prems s1 have "\<forall>g \<in> set (greedy_groups J1 rest). length g < 2" by simp
  with Cons.IH s2 show ?case by simp
qed

lemma grouped_count_zero:
  "(grouped_count (cluster_with ar cosine items th) = 0)
     = (\<forall>g \<in> set (greedy_groups (index_joins ar cosine items th) [0 ..< length items]). length g < 2)"
proof -
  let ?gs = "filter (\<lambda>g. 2 \<le> length g) (greedy_groups (index_joins ar cosine items th) [0 ..< length items])"
  have "grouped_count (cluster_with ar cosine items th) = sum_list (map length ?gs)"
    by (simp add: grouped_count_def groups_cluster_with comp_def length_tabs_group_of)
  moreover have "(sum_list (map length ?gs) = 0) = (?gs = [])"
    by (auto simp: filter_empty_conv)
  ultimately show ?thesis
    by (auto simp: filter_empty_conv not_le)
qed

text \<open>
  In every arithmetic: where whatever exceeds the threshold \<open>t2\<close> exceeds \<open>t1\<close>,
  a loop that groups no tab at \<open>t1\<close> groups no tab at \<open>t2\<close>.
\<close>

lemma nothing_grouped_in:
  assumes "grouped_count (cluster_with ar cosine items t1) = 0"
    and "\<And>x. f_gt ar x t2 \<Longrightarrow> f_gt ar x t1"
  shows "grouped_count (cluster_with ar cosine items t2) = 0"
proof -
  let ?xs = "[0 ..< length items]"
  from assms(1) have a: "\<forall>g \<in> set (greedy_groups (index_joins ar cosine items t1) ?xs). length g < 2"
    by (simp add: grouped_count_zero)
  have "index_joins ar cosine items t2 g c \<Longrightarrow> index_joins ar cosine items t1 g c" for g c
    unfolding index_joins_def by (rule assms(2))
  then have "greedy_groups (index_joins ar cosine items t2) ?xs = map (\<lambda>x. [x]) ?xs"
    using a by (rule greedy_groups_all_alone)
  then show ?thesis
    by (simp add: grouped_count_zero)
qed

lemma js_gt_mono: "t1 \<le> t2 \<Longrightarrow> f_gt exact x (Some t2) \<Longrightarrow> f_gt exact x (Some t1)"
  by (auto simp: exact_fields js_gt_def split: option.splits)

text \<open>
  C3 (raising the threshold never increases the number of grouped tabs). The claim is
  false: on \<open>four_items\<close> the loop groups 2 tabs at threshold 0.4 and all 4 at 0.6. At
  0.4 the second tab joins the first and keeps the other two out of that group; at 0.6 it
  does not, and two pairs form.
\<close>

theorem higher_threshold_groups_more:
  "grouped_count (cluster four_items (2/5)) = 2 \<and> grouped_count (cluster four_items (3/5)) = 4
   \<and> map indices (groups (cluster four_items (2/5))) = [[0, 1]]
   \<and> map indices (groups (cluster four_items (3/5))) = [[0, 2], [1, 3]]"
  by (simp add: cluster_eval grouped_count_def four_items_def)

text \<open>
  C3, amended: if the loop groups no tab at a threshold, it groups no tab at any higher
  threshold. (Proved here for finite thresholds without rounding; \<open>nothing_grouped_in\<close>
  is the same fact in every arithmetic in which what exceeds the higher threshold exceeds
  the lower one, as it is with doubles.)
\<close>

theorem nothing_grouped_stays_nothing:
  assumes "grouped_count (cluster items t1) = 0" and "t1 \<le> t2"
  shows "grouped_count (cluster items t2) = 0"
  using assms(1) js_gt_mono [OF assms(2)]
  unfolding cluster_def cluster_in_def by (rule nothing_grouped_in)

theorem nothing_grouped_stays_nothing_witness:
  "grouped_count (cluster four_items (4/5)) = 0 \<and> (4/5 :: real) \<le> 9/10
   \<and> grouped_count (cluster four_items (9/10)) = 0"
proof -
  have h1: "grouped_count (cluster four_items (4/5)) = 0"
    by (simp add: cluster_eval grouped_count_def four_items_def)
  have h2: "(4/5 :: real) \<le> 9/10" by simp
  from h1 h2 nothing_grouped_stays_nothing [OF h1 h2] show ?thesis by simp
qed

subsection \<open>The all-zero embedding\<close>

lemma cosine_loop_zero_left:
  "fst (snd (cosine_loop exact (replicate k (Some 0)) b (d, Some na, nb))) = Some na"
proof (induction k arbitrary: b d nb)
  case 0
  show ?case by simp
next
  case (Suc k)
  show ?case by (cases b) (simp_all add: Suc.IH exact_fields js_add_Some js_mul_Some)
qed

lemma js_gt_zero_product: "js_sqrt x = Some 0 \<or> js_sqrt y = Some 0 \<Longrightarrow> \<not> js_gt (js_mul (js_sqrt x) (js_sqrt y)) (Some 0)"
  by (auto simp: js_gt_def js_mul_def split: option.splits)

lemma js_gt_nan_product: "js_sqrt x = None \<or> js_sqrt y = None \<Longrightarrow> \<not> js_gt (js_mul (js_sqrt x) (js_sqrt y)) (Some 0)"
  by (auto simp: js_gt_def js_mul_def split: option.splits)

lemma cosineSimilarity_zero_left: "cosineSimilarity exact (replicate k (Some 0)) b = Some 0"
proof -
  obtain d na nb where l: "cosine_loop exact (replicate k (Some 0)) b (Some 0, Some 0, Some 0) = (d, na, nb)"
    by (cases "cosine_loop exact (replicate k (Some 0)) b (Some 0, Some 0, Some 0)")
  with cosine_loop_zero_left [of k b "Some 0" 0 "Some 0"] have "na = Some 0" by simp
  then have "\<not> js_gt (js_mul (js_sqrt na) (js_sqrt nb)) (Some 0)"
    by (intro js_gt_zero_product) (simp add: js_sqrt_def)
  with l show ?thesis
    by (simp add: cosineSimilarity_def exact_fields Let_def)
qed

lemma cosine_loop_zero_right:
  "nb = None \<or> nb = Some 0 \<Longrightarrow>
   snd (snd (cosine_loop exact a (replicate k (Some 0)) (d, na, nb))) = None
   \<or> snd (snd (cosine_loop exact a (replicate k (Some 0)) (d, na, nb))) = Some 0"
proof (induction a arbitrary: k d na nb)
  case Nil
  then show ?case by simp
next
  case (Cons x a)
  show ?case
  proof (cases k)
    case 0
    have "js_add nb (js_mul None None) = None \<or> js_add nb (js_mul None None) = Some 0"
      by (simp add: js_add_def js_mul_def split: option.splits)
    from Cons.IH [OF this, of 0] 0 show ?thesis
      by (simp add: exact_fields)
  next
    case (Suc k')
    have "js_add nb (js_mul (Some 0) (Some 0)) = None \<or> js_add nb (js_mul (Some 0) (Some 0)) = Some 0"
      using Cons.prems by (auto simp: js_add_def js_mul_def)
    from Cons.IH [OF this, of k'] Suc show ?thesis
      by (simp add: exact_fields)
  qed
qed

lemma cosineSimilarity_zero_right: "cosineSimilarity exact a (replicate k (Some 0)) = Some 0"
proof -
  obtain d na nb where l: "cosine_loop exact a (replicate k (Some 0)) (Some 0, Some 0, Some 0) = (d, na, nb)"
    by (cases "cosine_loop exact a (replicate k (Some 0)) (Some 0, Some 0, Some 0)")
  with cosine_loop_zero_right [of "Some 0" a k "Some 0" "Some 0"] have "nb = None \<or> nb = Some 0" by simp
  then have "js_sqrt nb = Some 0 \<or> js_sqrt nb = None"
    by (auto simp: js_sqrt_def)
  then have "\<not> js_gt (js_mul (js_sqrt na) (js_sqrt nb)) (Some 0)"
    using js_gt_zero_product [of na nb] js_gt_nan_product [of na nb] by blast
  with l show ?thesis
    by (simp add: cosineSimilarity_def exact_fields Let_def)
qed

lemma foldl_js_add_zeros: "foldl js_add (Some 0) (replicate n (Some 0)) = Some 0"
  by (induction n) (simp_all add: js_add_Some)

lemma average_of_zeros:
  assumes "\<And>x. x \<in> set es \<Longrightarrow> cosine e x = Some 0" and "0 \<le> th"
  shows "\<not> f_gt exact (calculateAverageSimilarity exact cosine e es) (Some th)"
proof -
  have "map (cosine e) es = map (\<lambda>x. Some 0) es"
    using assms(1) by (intro map_cong) auto
  then have "map (cosine e) es = replicate (length es) (Some 0)"
    by (simp only: map_replicate_const)
  then have "calculateAverageSimilarity exact cosine e es = js_div (Some 0) (Some (real (length es)))"
    by (simp add: calculateAverageSimilarity_def Let_def exact_fields foldl_js_add_zeros)
  with assms(2) show ?thesis
    by (simp add: exact_fields js_gt_def js_div_def)
qed

text \<open>
  A tab whose embedding is all zeros is in no group that the loop emits, at any threshold
  that is not negative.
\<close>

lemma zero_embedding_never_grouped:
  assumes "snd (items ! z) = replicate k 0" and "0 \<le> th"
  shows "\<forall>g \<in> set (groups (cluster items th)). z \<notin> set (indices g)"
proof (cases "z < length items")
  case False
  have "\<forall>g \<in> set (groups (cluster items th)). set (indices g) \<subseteq> {0 ..< length items}"
    using cluster_with_groups_disjoint [of exact "cosineSimilarity exact" "as_numbers items" "Some th"]
    by (simp add: cluster_def cluster_in_def as_numbers_def)
  with False show ?thesis by (fastforce simp: subset_iff)
next
  case True
  let ?items = "as_numbers items"
  let ?J = "index_joins exact (cosineSimilarity exact) ?items (Some th)"
  from True assms(1) have z: "snd (?items ! z) = replicate k (Some 0)"
    by (simp add: as_numbers_def split_def)
  have a: "\<not> ?J g z" for g
    unfolding index_joins_def z
    using assms(2) by (intro average_of_zeros) (simp_all add: cosineSimilarity_zero_left)
  have b: "\<not> ?J [z] c" for c
    unfolding index_joins_def
    using assms(2) by (intro average_of_zeros) (simp_all add: z cosineSimilarity_zero_right)
  have "\<forall>g \<in> set (greedy_groups ?J [0 ..< length ?items]). z \<in> set g \<longrightarrow> g = [z]"
    using a b by (intro greedy_groups_loner) simp_all
  then have "\<forall>g \<in> set (filter (\<lambda>g. 2 \<le> length g) (greedy_groups ?J [0 ..< length ?items])). z \<notin> set g"
    by auto
  then show ?thesis
    by (simp add: cluster_def cluster_in_def groups_cluster_with group_of_def)
qed

lemma unit_cosine:
  "cosineSimilarity exact (Some 1 # replicate k (Some 0)) (Some 1 # replicate k (Some 0)) = Some 1"
proof -
  have "cosineSimilarity exact (map Some (1 # replicate k 0)) (map Some (1 # replicate k 0))
          = spec_cosine exact (map Some (1 # replicate k 0)) (map Some (1 # replicate k 0))"
    by (rule cosineSimilarity_spec) (simp, rule norms_multiply_exact)
  also have "\<dots> = Some 1"
    unfolding spec_cosine_def spec_norm_exact spec_dot_exact
    by (simp add: exact_fields js_mul_def js_div_def zip_replicate sum_list_replicate)
  finally show ?thesis by simp
qed

lemma failing_texts:
  "map (tabText demo_host) failing_tabs = [''A a.example'', ''broken'', ''C c.example'']"
  by (simp add: failing_tabs_def tabText_def tab_domain_def mk_tab_def demo_host_def
      demo_hostname_def or_else_def is_space_def)

lemma failing_embeddings:
  "fst (generateEmbeddings ready_processor [''A a.example'', ''broken'', ''C c.example''])
     = Inr [1 # replicate 383 0, replicate 384 0, 1 # replicate 383 0]"
  by (simp add: generateEmbedding_def ready_processor_def new_processor_def session_ok_def Map_get_def)

lemma cluster_zero_middle:
  "cluster (zip failing_tabs [1 # replicate 383 0, replicate 384 0, 1 # replicate 383 0]) (1/2)
     = \<lparr>groups = [group_of (as_numbers (zip failing_tabs [1 # replicate 383 0, replicate 384 0, 1 # replicate 383 0])) [0, 2]],
        ungrouped = []\<rparr>"
  by (simp add: cluster_def cluster_in_def as_numbers_def cluster_with_def seed_step_def
      scan_step_def upt_rec calculateAverageSimilarity_def Let_def exact_fields js_gt_def
      js_add_def js_div_def failing_tabs_def group_of_def
      unit_cosine cosineSimilarity_zero_left cosineSimilarity_zero_right)

text \<open>
  C10 (a tab with the all-zero embedding is always reported in ungrouped). The tab is never
  in a group (\<open>zero_embedding_never_grouped\<close>), but it is not in \<open>ungrouped\<close>
  either, which is always empty. Here the whole of \<open>groupTabsBySimilarity\<close> is run on
  three tabs, the second of which fails to embed and gets the 384 zeros: the result has
  the group of the first and the third tab and nothing else.
\<close>

theorem failed_embedding_tab_is_lost:
  "map_sum id (\<lambda>c. (map indices (groups c), map tabs (groups c), ungrouped c))
     (fst (groupTabsBySimilarity demo_host ready_processor failing_tabs (1/2)))
   = Inr ([[0, 2]], [[mk_tab 1 ''A'' ''https://a.example/'', mk_tab 3 ''C'' ''https://c.example/'']], [])"
proof -
  obtain p' where g: "generateEmbeddings ready_processor [''A a.example'', ''broken'', ''C c.example'']
      = (Inr [1 # replicate 383 0, replicate 384 0, 1 # replicate 383 0], p')"
    using failing_embeddings
    by (cases "generateEmbeddings ready_processor [''A a.example'', ''broken'', ''C c.example'']") simp
  have "fst (groupTabsBySimilarity demo_host ready_processor failing_tabs (1/2))
          = Inr \<lparr>groups = [group_of (as_numbers (zip failing_tabs [1 # replicate 383 0, replicate 384 0, 1 # replicate 383 0])) [0, 2]],
                 ungrouped = []\<rparr>"
    unfolding groupTabsBySimilarity_def failing_texts g
    by (simp add: cluster_zero_middle)
  then show ?thesis
    by (simp add: group_of_def failing_tabs_def as_numbers_def)
qed

subsection \<open>The unguarded cosine\<close>

text \<open>
  Without rounding, where the product of the norms is zero the dot product is zero or NaN,
  so the unguarded division of the simple processor is \<open>0 / 0\<close> there and never a
  nonzero number over zero.
\<close>

lemma sum_squares_zero: "sum_list (map (\<lambda>x. x * x) (a :: real list)) = 0 \<Longrightarrow> \<forall>x \<in> set a. x = 0"
proof (induction a)
  case Nil
  show ?case by simp
next
  case (Cons x a)
  have "0 \<le> x * x" by simp
  moreover have "0 \<le> sum_list (map (\<lambda>x. x * x) a)" by (rule sum_squares_nonneg)
  ultimately have "x * x = 0 \<and> sum_list (map (\<lambda>x. x * x) a) = 0"
    using Cons.prems by (simp add: add_nonneg_eq_0_iff)
  with Cons.IH show ?case by simp
qed

lemma sum_list_all_zero: "\<forall>v \<in> set vs. v = 0 \<Longrightarrow> sum_list vs = (0 :: real)"
  by (induction vs) simp_all

lemma cosine_loop_past_end:
  "cosine_loop exact (map Some a) [] (None, Some n, None)
     = (None, Some (n + sum_list (map (\<lambda>x. x * x) a)), None)"
  by (induction a arbitrary: n) (simp_all add: exact_fields js_add_def js_mul_def algebra_simps)

lemma cosine_loop_components:
  "cosine_loop exact (map Some a) (map Some b) (Some d, Some na, Some nb) =
     (if length a \<le> length b
      then (Some (d + sum_list (map2 (*) a b)), Some (na + sum_list (map (\<lambda>x. x * x) a)),
            Some (nb + sum_list (map (\<lambda>x. x * x) (take (length a) b))))
      else (None, Some (na + sum_list (map (\<lambda>x. x * x) a)), None))"
proof (induction a arbitrary: b d na nb)
  case Nil
  show ?case by simp
next
  case (Cons x a)
  show ?case
  proof (cases b)
    case Nil
    then show ?thesis
      by (simp add: exact_fields js_add_def js_mul_def cosine_loop_past_end algebra_simps)
  next
    case b: (Cons y b')
    have "cosine_loop exact (map Some (x # a)) (map Some (y # b')) (Some d, Some na, Some nb)
            = cosine_loop exact (map Some a) (map Some b') (Some (d + x * y), Some (na + x * x), Some (nb + y * y))"
      by (simp add: exact_fields js_add_Some js_mul_Some)
    then show ?thesis
      unfolding b Cons.IH by (simp add: algebra_simps)
  qed
qed

lemma zero_norm_zero_dot:
  assumes "cosine_loop exact (map Some a) (map Some b) (Some 0, Some 0, Some 0) = (dotProduct, normA, normB)"
    and "js_mul (js_sqrt normA) (js_sqrt normB) = Some 0"
  shows "dotProduct = Some 0"
proof (cases "length a \<le> length b")
  case False
  with assms show ?thesis
    by (auto simp: cosine_loop_components js_mul_def js_sqrt_def split: option.splits if_splits)
next
  case True
  let ?b = "take (length a) b"
  from True assms(1) have d: "dotProduct = Some (sum_list (map2 (*) a b))"
    and na: "normA = Some (sum_list (map (\<lambda>x. x * x) a))"
    and nb: "normB = Some (sum_list (map (\<lambda>x. x * x) ?b))"
    by (simp_all add: cosine_loop_components)
  from assms(2) na nb have z: "sum_list (map (\<lambda>x. x * x) a) = 0 \<or> sum_list (map (\<lambda>x. x * x) ?b) = 0"
    by (simp add: js_mul_def js_sqrt_def split: if_splits)
  have zb: "zip a b = zip a ?b"
    using True by (induction a b rule: list_induct2') simp_all
  have "\<forall>p \<in> set (zip a b). fst p * snd p = 0"
  proof
    fix p
    assume p: "p \<in> set (zip a b)"
    obtain x y where xy: "p = (x, y)" by (cases p)
    from z show "fst p * snd p = 0"
    proof
      assume "sum_list (map (\<lambda>x. x * x) a) = 0"
      then have "\<forall>x \<in> set a. x = 0" by (rule sum_squares_zero)
      moreover from p xy have "x \<in> set a" by (auto dest: set_zip_leftD)
      ultimately show ?thesis using xy by simp
    next
      assume "sum_list (map (\<lambda>x. x * x) ?b) = 0"
      then have "\<forall>x \<in> set ?b. x = 0" by (rule sum_squares_zero)
      moreover from p xy zb have "y \<in> set ?b" by (auto dest: set_zip_rightD)
      ultimately show ?thesis using xy by simp
    qed
  qed
  then have "\<forall>v \<in> set (map2 (*) a b). v = 0"
    by (auto simp: split_def)
  then have "sum_list (map2 (*) a b) = 0"
    by (rule sum_list_all_zero)
  with d show ?thesis by simp
qed

section \<open>Facts about the embedding cache\<close>

lemma Map_get_Map_set: "Map_get (Map_set k v m) k' = (if k' = k then Some v else Map_get m k')"
  by (induction m) (auto simp: Map_get_def)

lemma Map_get_Map_delete: "Map_get (Map_delete k m) k' = (if k' = k then None else Map_get m k')"
  by (induction m) (auto simp: Map_get_def Map_delete_def)

lemma Map_set_new: "Map_get m k = None \<Longrightarrow> Map_set k v m = m @ [(k, v)]"
  by (induction m) (auto simp: Map_get_def split: if_splits)

lemma Map_get_None_iff: "(Map_get m k = None) = (k \<notin> fst ` set m)"
  by (simp add: Map_get_def map_of_eq_None_iff)

lemma Map_delete_first: "distinct (map fst (x # xs)) \<Longrightarrow> Map_delete (fst x) (x # xs) = xs"
proof -
  assume "distinct (map fst (x # xs))"
  then have "\<forall>y \<in> set xs. fst y \<noteq> fst x" by (auto simp: image_iff)
  then have "filter (\<lambda>p. fst p \<noteq> fst x) xs = xs" by (simp add: filter_id_conv)
  then show ?thesis by (simp add: Map_delete_def)
qed

text \<open>What one call of \<open>generateEmbedding\<close> does to the cache.\<close>

lemma generateEmbedding_cache:
  assumes "length (embeddingCache p) \<le> 500" and "distinct (map fst (embeddingCache p))"
  shows "embeddingCache (snd (generateEmbedding p text)) =
           (case fst (generateEmbedding p text) of
              Inr (Some v) \<Rightarrow>
                if Map_get (embeddingCache p) text = None
                then (if length (embeddingCache p) = 500 then tl (embeddingCache p)
                      else embeddingCache p) @ [(text, v)]
                else embeddingCache p
            | _ \<Rightarrow> embeddingCache p)"
proof (cases "\<not> modelReady p \<or> session p = None")
  case True
  then show ?thesis by (auto simp: generateEmbedding_def)
next
  case False
  then obtain s where s: "session p = Some s" and r: "modelReady p" by auto
  show ?thesis
  proof (cases "Map_get (embeddingCache p) text")
    case (Some cached)
    with s r show ?thesis by (simp add: generateEmbedding_def)
  next
    case None
    show ?thesis
    proof (cases "infer s (tokenizerData p) text")
      case n: None
      with s r None show ?thesis by (simp add: generateEmbedding_def)
    next
      case (Some v)
      have set: "Map_set text v (embeddingCache p) = embeddingCache p @ [(text, v)]"
        using None by (rule Map_set_new)
      show ?thesis
      proof (cases "length (embeddingCache p) = 500")
        case True
        then obtain x xs where c: "embeddingCache p = x # xs" by (cases "embeddingCache p") auto
        from None c have "text \<noteq> fst x" by (auto simp: Map_get_def split: if_splits)
        moreover from None have "text \<notin> fst ` set (embeddingCache p)" by (simp add: Map_get_None_iff)
        ultimately have "distinct (map fst (x # (xs @ [(text, v)])))"
          using assms(2) c by auto
        then have "Map_delete (fst x) (x # (xs @ [(text, v)])) = xs @ [(text, v)]"
          by (rule Map_delete_first)
        with s r None Some set True c show ?thesis
          by (simp add: generateEmbedding_def)
      next
        case False
        with assms(1) have "length (embeddingCache p) < 500" by simp
        with s r None Some set show ?thesis
          by (simp add: generateEmbedding_def)
      qed
    qed
  qed
qed

lemma generateEmbedding_cache_invariant:
  assumes "length (embeddingCache p) \<le> 500" and "distinct (map fst (embeddingCache p))"
  shows "length (embeddingCache (snd (generateEmbedding p text))) \<le> 500
         \<and> distinct (map fst (embeddingCache (snd (generateEmbedding p text))))"
proof -
  have t: "distinct (map fst (tl (embeddingCache p)))"
    using assms(2) by (cases "embeddingCache p") simp_all
  have k: "Map_get (embeddingCache p) text = None \<Longrightarrow> text \<notin> fst ` set (tl (embeddingCache p))"
    by (cases "embeddingCache p") (auto simp: Map_get_None_iff)
  show ?thesis
    unfolding generateEmbedding_cache [OF assms]
    using assms t k
    by (auto simp: Map_get_None_iff split: sum.splits option.splits)
qed

lemma snd_generateEmbeddings_Cons:
  "snd (generateEmbeddings p (t # ts)) =
     (case fst (generateEmbedding p t) of
        Inl err \<Rightarrow> snd (generateEmbedding p t)
      | Inr r \<Rightarrow> snd (generateEmbeddings (snd (generateEmbedding p t)) ts))"
  by (simp add: Let_def split: prod.splits sum.splits)

lemma generateEmbeddings_cache_invariant:
  assumes "length (embeddingCache p) \<le> 500" and "distinct (map fst (embeddingCache p))"
  shows "length (embeddingCache (snd (generateEmbeddings p texts))) \<le> 500
         \<and> distinct (map fst (embeddingCache (snd (generateEmbeddings p texts))))"
  using assms
proof (induction texts arbitrary: p)
  case Nil
  then show ?case by simp
next
  case (Cons t ts)
  let ?p' = "snd (generateEmbedding p t)"
  from generateEmbedding_cache_invariant [OF Cons.prems, of t]
  have inv: "length (embeddingCache ?p') \<le> 500" "distinct (map fst (embeddingCache ?p'))" by simp_all
  show ?case
    unfolding snd_generateEmbeddings_Cons
    using inv Cons.IH [OF inv] by (cases "fst (generateEmbedding p t)") simp_all
qed

subsection \<open>The cache of the simple processor only grows\<close>

lemma Simple_cache_grows:
  assumes "s_modelReady p" and "s_modelLoaded p" and "distinct texts"
    and "\<forall>t \<in> set texts. Map_get (s_embeddingCache p) t = None"
  shows "s_embeddingCache (snd (Simple_generateEmbeddings pseudo p texts))
           = s_embeddingCache p @ map (\<lambda>t. (t, pseudo t)) texts"
  using assms
proof (induction texts arbitrary: p)
  case Nil
  show ?case by simp
next
  case (Cons t ts)
  let ?p' = "p\<lparr>s_embeddingCache := s_embeddingCache p @ [(t, pseudo t)]\<rparr>"
  from Cons.prems have g: "Simple_generateEmbedding pseudo p t = (Inr (pseudo t), ?p')"
    by (simp add: Simple_generateEmbedding_def Map_set_new)
  have "\<forall>u \<in> set ts. Map_get (s_embeddingCache ?p') u = None"
    using Cons.prems by (auto simp: Map_get_None_iff)
  with Cons.prems Cons.IH [of ?p'] have
    "s_embeddingCache (snd (Simple_generateEmbeddings pseudo ?p' ts))
       = s_embeddingCache ?p' @ map (\<lambda>t. (t, pseudo t)) ts" by simp
  moreover have "snd (Simple_generateEmbeddings pseudo p (t # ts))
                   = snd (Simple_generateEmbeddings pseudo ?p' ts)"
    by (simp add: g split: prod.splits sum.splits)
  ultimately show ?case by simp
qed

lemma replicate_inj: "inj_on (\<lambda>n. replicate n c) A"
  by (rule inj_onI) (metis length_replicate)

lemma distinct_many_texts: "distinct many_texts"
  by (simp add: many_texts_def distinct_map replicate_inj)

text \<open>
  C6 (the cache holds at most 500 entries, the oldest-inserted is evicted). The claim is
  false for the cache of the simple processor, which is never evicted from: after 501
  distinct texts it holds 501 entries.
\<close>

theorem simple_cache_exceeds_500:
  "length (s_embeddingCache (snd (Simple_generateEmbeddings demo_pseudo simple_ready many_texts))) = 501"
proof -
  have "s_embeddingCache (snd (Simple_generateEmbeddings demo_pseudo simple_ready many_texts))
          = s_embeddingCache simple_ready @ map (\<lambda>t. (t, demo_pseudo t)) many_texts"
    by (rule Simple_cache_grows) (simp_all add: simple_ready_def distinct_many_texts Map_get_def)
  then show ?thesis by (simp add: simple_ready_def many_texts_def)
qed

text \<open>
  C6, amended: the cache of \<open>RealAIProcessor\<close> holds at most 500 entries after every
  call of \<open>generateEmbedding\<close> and after every batch; a cache hit and a failed inference
  leave it as it is; a new text is appended, and when the cache held 500 entries its first
  entry, the oldest inserted, is the one removed.
\<close>

theorem cache_bounded_oldest_evicted:
  assumes "length (embeddingCache p) \<le> 500" and "distinct (map fst (embeddingCache p))"
  shows "length (embeddingCache (snd (generateEmbedding p text))) \<le> 500
       \<and> distinct (map fst (embeddingCache (snd (generateEmbedding p text))))
       \<and> length (embeddingCache (snd (generateEmbeddings p texts))) \<le> 500
       \<and> embeddingCache (snd (generateEmbedding p text)) =
           (case fst (generateEmbedding p text) of
              Inr (Some v) \<Rightarrow>
                if Map_get (embeddingCache p) text = None
                then (if length (embeddingCache p) = 500 then tl (embeddingCache p)
                      else embeddingCache p) @ [(text, v)]
                else embeddingCache p
            | _ \<Rightarrow> embeddingCache p)"
proof (intro conjI)
  show "length (embeddingCache (snd (generateEmbedding p text))) \<le> 500"
    using generateEmbedding_cache_invariant [OF assms, of "text"] by (rule conjunct1)
  show "distinct (map fst (embeddingCache (snd (generateEmbedding p text))))"
    using generateEmbedding_cache_invariant [OF assms, of "text"] by (rule conjunct2)
  show "length (embeddingCache (snd (generateEmbeddings p texts))) \<le> 500"
    using generateEmbeddings_cache_invariant [OF assms, of texts] by (rule conjunct1)
  show "embeddingCache (snd (generateEmbedding p text)) =
           (case fst (generateEmbedding p text) of
              Inr (Some v) \<Rightarrow>
                if Map_get (embeddingCache p) text = None
                then (if length (embeddingCache p) = 500 then tl (embeddingCache p)
                      else embeddingCache p) @ [(text, v)]
                else embeddingCache p
            | _ \<Rightarrow> embeddingCache p)"
    by (rule generateEmbedding_cache [OF assms])
qed

lemma length_full_cache: "length full_cache = 500"
  by (simp add: full_cache_def)

lemma distinct_full_cache: "distinct (map fst full_cache)"
  by (simp add: full_cache_def comp_def distinct_map replicate_inj)

lemma new_not_in_full_cache: "Map_get full_cache ''new'' = None"
proof -
  have "''new'' \<noteq> replicate n (CHR ''k'')" for n
  proof
    assume eq: "''new'' = replicate n (CHR ''k'')"
    have "CHR ''n'' \<in> set ''new''" by simp
    then have "CHR ''n'' \<in> set (replicate n (CHR ''k''))" unfolding eq .
    then show False by (simp split: if_splits)
  qed
  then have "''new'' \<notin> (\<lambda>n. replicate n (CHR ''k'')) ` set [0 ..< 500]" by blast
  then show ?thesis
    unfolding Map_get_None_iff full_cache_def by (simp add: image_image)
qed

theorem cache_bounded_oldest_evicted_witness:
  "length (embeddingCache full_processor) = 500
   \<and> distinct (map fst (embeddingCache full_processor))
   \<and> length (embeddingCache (snd (generateEmbedding full_processor ''new''))) \<le> 500
   \<and> embeddingCache (snd (generateEmbedding full_processor ''new''))
       = tl full_cache @ [(''new'', 1 # replicate 383 0)]"
proof -
  have c: "embeddingCache full_processor = full_cache"
    by (simp add: full_processor_def)
  have h1: "length (embeddingCache full_processor) \<le> 500"
    by (simp add: c length_full_cache)
  have h2: "distinct (map fst (embeddingCache full_processor))"
    by (simp add: c distinct_full_cache)
  have r: "fst (generateEmbedding full_processor ''new'') = Inr (Some (1 # replicate 383 0))"
    by (simp add: generateEmbedding_def full_processor_def ready_processor_def new_processor_def
        session_ok_def new_not_in_full_cache Let_def)
  from cache_bounded_oldest_evicted [OF h1 h2, of "''new''" "[]"] h2 show ?thesis
    by (simp add: r c new_not_in_full_cache length_full_cache)
qed

section \<open>Facts about batches\<close>

text \<open>What a call of \<open>generateEmbedding\<close> on a ready processor returns and keeps.\<close>

lemma generateEmbedding_ready:
  assumes "modelReady p" and "session p = Some s"
  shows "\<exists>r p'. generateEmbedding p t = (Inr r, p')
           \<and> modelReady p' \<and> session p' = Some s \<and> tokenizerData p' = tokenizerData p
           \<and> (Map_get (embeddingCache p) t = None \<and> infer s (tokenizerData p) t = None \<longrightarrow> r = None)
           \<and> (\<forall>k. Map_get (embeddingCache p) k = None \<and> infer s (tokenizerData p) k = None
                  \<longrightarrow> Map_get (embeddingCache p') k = None)"
proof (cases "Map_get (embeddingCache p) t")
  case (Some cached)
  with assms show ?thesis by (simp add: generateEmbedding_def)
next
  case None
  show ?thesis
  proof (cases "infer s (tokenizerData p) t")
    case n: None
    with assms None show ?thesis by (simp add: generateEmbedding_def)
  next
    case (Some v)
    with assms None show ?thesis
      by (auto simp: generateEmbedding_def Let_def Map_get_Map_set Map_get_Map_delete)
  qed
qed

text \<open>
  C7 (a batch of N texts yields N vectors). On a ready processor \<open>generateEmbeddings\<close>
  does not throw and returns one vector per text; a text that is not cached and whose
  inference fails gets the vector of 384 zeros at its position.
\<close>

theorem batch_never_aborts:
  assumes "modelReady p" and "session p = Some s"
  shows "\<exists>es p'. generateEmbeddings p texts = (Inr es, p') \<and> length es = length texts
           \<and> (\<forall>i < length texts.
                  Map_get (embeddingCache p) (texts ! i) = None
                  \<and> infer s (tokenizerData p) (texts ! i) = None
                  \<longrightarrow> es ! i = replicate 384 0)"
  using assms
proof (induction texts arbitrary: p)
  case Nil
  show ?case by simp
next
  case (Cons t ts)
  from generateEmbedding_ready [OF Cons.prems, of t] obtain r p' where
    g: "generateEmbedding p t = (Inr r, p')" and
    ready: "modelReady p'" "session p' = Some s" and
    tk: "tokenizerData p' = tokenizerData p" and
    fail: "Map_get (embeddingCache p) t = None \<and> infer s (tokenizerData p) t = None \<longrightarrow> r = None" and
    keep: "\<forall>k. Map_get (embeddingCache p) k = None \<and> infer s (tokenizerData p) k = None
              \<longrightarrow> Map_get (embeddingCache p') k = None"
    by blast
  from Cons.IH [OF ready] obtain es p'' where
    rest: "generateEmbeddings p' ts = (Inr es, p'')" and
    len: "length es = length ts" and
    zeros: "\<forall>i < length ts. Map_get (embeddingCache p') (ts ! i) = None
                \<and> infer s (tokenizerData p') (ts ! i) = None \<longrightarrow> es ! i = replicate 384 0"
    by blast
  let ?e = "case r of Some e \<Rightarrow> e | None \<Rightarrow> replicate 384 0"
  have res: "generateEmbeddings p (t # ts) = (Inr (?e # es), p'')"
    by (simp add: g rest)
  have "\<forall>i < length (t # ts).
          Map_get (embeddingCache p) ((t # ts) ! i) = None
          \<and> infer s (tokenizerData p) ((t # ts) ! i) = None
          \<longrightarrow> (?e # es) ! i = replicate 384 0"
  proof (intro allI impI)
    fix i
    assume i: "i < length (t # ts)"
      and h: "Map_get (embeddingCache p) ((t # ts) ! i) = None
              \<and> infer s (tokenizerData p) ((t # ts) ! i) = None"
    show "(?e # es) ! i = replicate 384 0"
    proof (cases i)
      case 0
      with h fail show ?thesis by simp
    next
      case (Suc j)
      with i have j: "j < length ts" by simp
      from h Suc keep tk have "Map_get (embeddingCache p') (ts ! j) = None
          \<and> infer s (tokenizerData p') (ts ! j) = None" by simp
      with zeros j Suc show ?thesis by simp
    qed
  qed
  with res len show ?case by simp
qed

theorem batch_never_aborts_witness:
  "modelReady ready_processor \<and> session ready_processor = Some session_ok
   \<and> (\<exists>es p'. generateEmbeddings ready_processor [''fine'', ''broken''] = (Inr es, p')
         \<and> length es = 2 \<and> es ! 1 = replicate 384 0)"
proof -
  have h1: "modelReady ready_processor"
    by (simp add: ready_processor_def new_processor_def)
  have h2: "session ready_processor = Some session_ok"
    by (simp add: ready_processor_def new_processor_def)
  have c: "Map_get (embeddingCache ready_processor) ''broken'' = None"
    by (simp add: ready_processor_def new_processor_def Map_get_def)
  have f: "infer session_ok (tokenizerData ready_processor) ''broken'' = None"
    by (simp add: session_ok_def)
  from batch_never_aborts [OF h1 h2, of "[''fine'', ''broken'']"] obtain es p' where
    r: "generateEmbeddings ready_processor [''fine'', ''broken''] = (Inr es, p')" and
    l: "length es = length [''fine'', ''broken'']" and
    z: "\<forall>i < length [''fine'', ''broken''].
          Map_get (embeddingCache ready_processor) ([''fine'', ''broken''] ! i) = None
          \<and> infer session_ok (tokenizerData ready_processor) ([''fine'', ''broken''] ! i) = None
          \<longrightarrow> es ! i = replicate 384 0"
    by blast
  from z c f have "es ! 1 = replicate 384 0" by simp
  with h1 h2 r l show ?thesis by simp
qed

section \<open>Facts about initialization and readiness\<close>

lemmas init_eval = performInitialization_def then_step_def step_ORT_CONFIGURED_def
  step_WASM_READY_def step_SESSION_READY_def step_TOKENIZER_READY_def step_WARMED_UP_def
  step_READY_def init_failed_def transitionToState_def validateMilestone_def merge_details_def
  emitError_def logStage_FAIL_def configureONNXRuntime_def loadModel_def loadTokenizer_def
  warmUp_def generateEmbedding_def Map_get_def no_details_def getResourceForStage_def

text \<open>\<open>before_warmup\<close> is the run of \<open>performInitialization\<close> up to the warm-up.\<close>

lemma before_warmup_is_prefix:
  "foldl then_step (Inr (transitionToState env_ok new_processor BOOT no_details))
     [step_ORT_CONFIGURED env_ok, step_WASM_READY env_ok, step_SESSION_READY env_ok,
      step_TOKENIZER_READY env_ok, step_WARMED_UP env_ok, step_READY env_ok]
   = foldl then_step before_warmup [step_WARMED_UP env_ok, step_READY env_ok]"
  by (simp add: before_warmup_def)

text \<open>
  C5 (embedding fails with NotReady in every state other than READY). The claim is false
  for \<open>generateEmbedding\<close> itself, which asks for \<open>modelReady\<close> and a session, not for
  the state: the processor on which initialization runs the warm-up is in state
  \<open>TOKENIZER_READY\<close>, and there a call embeds the text and writes it to the cache.
\<close>

theorem embeds_before_READY:
  "(case before_warmup of
      Inl failure \<Rightarrow> False
    | Inr p \<Rightarrow>
        currentState p = TOKENIZER_READY \<and> embeddingCache p = []
        \<and> generateEmbedding p ''hello''
            = (Inr (Some (1 # replicate 383 0)),
               p\<lparr>embeddingCache := [(''hello'', 1 # replicate 383 0)]\<rparr>))"
  by (simp add: before_warmup_def init_eval env_ok_def session_ok_def new_processor_def)

text \<open>
  C5, amended: \<open>generateEmbedding\<close> throws the not-ready error and leaves the processor,
  its cache included, as it is whenever \<open>modelReady\<close> is false or there is no session, as
  on a new processor in \<open>BOOT\<close>; and in every state other than \<open>READY\<close> the message
  handler answers an embedding request with not-ready without calling it.
\<close>

theorem embedding_is_gated:
  "(\<not> modelReady p \<or> session p = None \<longrightarrow> generateEmbedding p text = (Inl NotReady, p))
   \<and> generateEmbedding new_processor text = (Inl NotReady, new_processor)
   \<and> (currentState p \<noteq> READY \<longrightarrow>
        messageHandler p (Ai_embed text) = (Not_ready (currentState p) (modelReady p), p)
        \<and> messageHandler p (GENERATE_EMBEDDING text) = (Not_ready (currentState p) (modelReady p), p))"
  by (auto simp: generateEmbedding_def messageHandler_def new_processor_def split: option.splits)

theorem embedding_is_gated_witness:
  "\<not> modelReady new_processor \<and> currentState new_processor = BOOT
   \<and> generateEmbedding new_processor ''hello'' = (Inl NotReady, new_processor)
   \<and> messageHandler new_processor (GENERATE_EMBEDDING ''hello'') = (Not_ready BOOT False, new_processor)"
proof -
  have h1: "\<not> modelReady new_processor \<or> session new_processor = None"
    by (simp add: new_processor_def)
  have h2: "currentState new_processor \<noteq> READY"
    by (simp add: new_processor_def)
  from embedding_is_gated [of new_processor "''hello''"] h1 h2 show ?thesis
    by (simp add: new_processor_def)
qed

text \<open>
  C4 (a session with an empty output-name list leads to ERROR with the model-load stage
  recorded). The claim is false: the validation of a stage is only printed, and an empty
  array passes it. With such a session, whose warm-up inference fails, initialization
  enters \<open>SESSION_READY\<close> and \<open>TOKENIZER_READY\<close>, fails in the warm-up, and records
  \<open>TOKENIZER_READY\<close> as the stage; the error messages carry the stages \<open>WARMED_UP\<close>
  and \<open>ERROR\<close>.
\<close>

theorem empty_outputs_fail_at_warmup:
  "outputNames session_no_outputs = []
   \<and> fst (performInitialization env_no_outputs new_processor) = Inl WarmupNull
   \<and> currentState (snd (performInitialization env_no_outputs new_processor)) = ERROR
   \<and> d_stage (stateDetails (snd (performInitialization env_no_outputs new_processor))) = Some TOKENIZER_READY
   \<and> error_stages (outbox (snd (performInitialization env_no_outputs new_processor))) = [WARMED_UP, ERROR]
   \<and> status_states (outbox (snd (performInitialization env_no_outputs new_processor)))
       = [BOOT, ORT_CONFIGURED, WASM_READY, SESSION_READY, TOKENIZER_READY, ERROR]
   \<and> validations (snd (performInitialization env_no_outputs new_processor))
       = [(ORT_CONFIGURED, True), (WASM_READY, True), (SESSION_READY, True), (TOKENIZER_READY, True)]"
  by (simp add: init_eval env_no_outputs_def session_no_outputs_def tokenizer_ok_def new_processor_def)

text \<open>
  C4, amended: a session with an empty output-name list passes the model-load validation.
  When the runtime is loaded, the tokenizer loads, and the warm-up inference on that session
  fails, initialization passes through \<open>SESSION_READY\<close> and \<open>TOKENIZER_READY\<close>, then
  transitions to \<open>ERROR\<close> with \<open>TOKENIZER_READY\<close>, the state at the failure, recorded
  as the stage and error messages for the stages \<open>WARMED_UP\<close> and \<open>ERROR\<close>;
  \<open>WARMED_UP\<close> is not reached in that run.
\<close>

theorem empty_outputs_pass_validation:
  assumes "ort_defined ev" and "created_session ev = Some s" and "outputNames s = []"
    and "loaded_tokenizer ev = Some tk"
    and "Map_get (embeddingCache p) ''warmup test'' = None"
    and "infer s (Some tk) ''warmup test'' = None"
  shows "\<exists>new. fst (performInitialization ev p) = Inl WarmupNull
           \<and> currentState (snd (performInitialization ev p)) = ERROR
           \<and> d_stage (stateDetails (snd (performInitialization ev p))) = Some TOKENIZER_READY
           \<and> outbox (snd (performInitialization ev p)) = outbox p @ new
           \<and> status_states new = [BOOT, ORT_CONFIGURED, WASM_READY, SESSION_READY, TOKENIZER_READY, ERROR]
           \<and> error_stages new = [WARMED_UP, ERROR]
           \<and> validations (snd (performInitialization ev p))
               = validations p @ [(ORT_CONFIGURED, ort_wasmPaths ev), (WASM_READY, True),
                                  (SESSION_READY, True), (TOKENIZER_READY, tokenizer tk \<noteq> None)]"
  using assms
  by (simp add: init_eval)

theorem empty_outputs_pass_validation_witness:
  "ort_defined env_no_outputs \<and> created_session env_no_outputs = Some session_no_outputs
   \<and> outputNames session_no_outputs = []
   \<and> currentState (snd (performInitialization env_no_outputs new_processor)) = ERROR
   \<and> d_stage (stateDetails (snd (performInitialization env_no_outputs new_processor))) = Some TOKENIZER_READY"
proof -
  have h1: "ort_defined env_no_outputs" by (simp add: env_no_outputs_def)
  have h2: "created_session env_no_outputs = Some session_no_outputs" by (simp add: env_no_outputs_def)
  have h3: "outputNames session_no_outputs = []" by (simp add: session_no_outputs_def)
  have h4: "loaded_tokenizer env_no_outputs = Some tokenizer_ok" by (simp add: env_no_outputs_def)
  have h5: "Map_get (embeddingCache new_processor) ''warmup test'' = None"
    by (simp add: new_processor_def Map_get_def)
  have h6: "infer session_no_outputs (Some tokenizer_ok) ''warmup test'' = None"
    by (simp add: session_no_outputs_def)
  from empty_outputs_pass_validation [OF h1 h2 h3 h4 h5 h6] h1 h2 h3 show ?thesis
    by blast
qed

text \<open>
  A model load that throws: the error message for \<open>SESSION_READY\<close> is sent, the
  machine goes to \<open>ERROR\<close> from \<open>WASM_READY\<close>, and no later state is entered.
\<close>

lemma model_load_failure:
  assumes "ort_defined ev" and "created_session ev = None"
  shows "\<exists>new. fst (performInitialization ev p) = Inl ModelLoadFailed
           \<and> currentState (snd (performInitialization ev p)) = ERROR
           \<and> d_stage (stateDetails (snd (performInitialization ev p))) = Some WASM_READY
           \<and> outbox (snd (performInitialization ev p)) = outbox p @ new
           \<and> status_states new = [BOOT, ORT_CONFIGURED, WASM_READY, ERROR]
           \<and> error_stages new = [SESSION_READY, ERROR]"
  using assms
  by (simp add: init_eval)

text \<open>
  The name lists play no part in what follows the model load: with an empty output-name
  list and an inference that works, initialization reaches \<open>READY\<close>.
\<close>

lemma unvalidated_session_reaches_READY:
  "currentState (snd (performInitialization
      (env_ok\<lparr>created_session := Some (session_ok\<lparr>outputNames := []\<rparr>)\<rparr>) new_processor)) = READY"
  by (simp add: init_eval env_ok_def session_ok_def new_processor_def Map_set_new Let_def)

text \<open>
  The same holds of the tokenizer: with a tokenizer.json that holds \<open>null\<close> the
  validation of \<open>TOKENIZER_READY\<close> fails, which is printed, and initialization goes
  on to \<open>READY\<close>.
\<close>

lemma failed_validation_reaches_READY:
  "currentState (snd (performInitialization (env_ok\<lparr>loaded_tokenizer := Some tokenizer_null\<rparr>) new_processor)) = READY
   \<and> validations (snd (performInitialization (env_ok\<lparr>loaded_tokenizer := Some tokenizer_null\<rparr>) new_processor))
       = [(ORT_CONFIGURED, True), (WASM_READY, True), (SESSION_READY, True), (TOKENIZER_READY, False),
          (WARMED_UP, True), (READY, True)]"
  by (simp add: init_eval env_ok_def session_ok_def tokenizer_null_def new_processor_def Map_set_new Let_def)

section \<open>Facts about the domain fallback\<close>

lemma keys_Map_set: "fst ` set (Map_set k v m) = insert k (fst ` set m)"
  by (induction m) auto

lemma distinct_Map_set: "distinct (map fst m) \<Longrightarrow> distinct (map fst (Map_set k v m))"
proof (induction m)
  case Nil
  show ?case by simp
next
  case (Cons x m)
  then show ?case by (auto simp: keys_Map_set)
qed

lemma members_of_file_tab:
  "members_of (file_tab m k t) k' = (if k' = k then members_of m k @ [t] else members_of m k')"
  by (simp add: members_of_def file_tab_def Map_get_Map_set split: option.splits)

lemma keys_file_tab: "fst ` set (file_tab m k t) = insert k (fst ` set m)"
  by (simp add: file_tab_def keys_Map_set split: option.splits)

lemma distinct_file_tab: "distinct (map fst m) \<Longrightarrow> distinct (map fst (file_tab m k t))"
  by (simp add: file_tab_def distinct_Map_set split: option.splits)

lemma domain_key_with_url: "url t \<noteq> None \<Longrightarrow> \<exists>k. domain_key h t = Inr k"
  by (auto simp: domain_key_def split: option.splits)

lemma file_tabs_with_urls:
  assumes "\<forall>t \<in> set ts. url t \<noteq> None" and "distinct (map fst m)"
  shows "\<exists>m'. file_tabs h m ts = Inr m' \<and> distinct (map fst m')
           \<and> (\<forall>k. members_of m' k = members_of m k @ filter (\<lambda>t. domain_key h t = Inr k) ts)
           \<and> fst ` set m' = fst ` set m \<union> {k. \<exists>t \<in> set ts. domain_key h t = Inr k}"
  using assms
proof (induction ts arbitrary: m)
  case Nil
  then show ?case by simp
next
  case (Cons t ts)
  from Cons.prems obtain k where k: "domain_key h t = Inr k"
    using domain_key_with_url [of t h] by auto
  have d: "distinct (map fst (file_tab m k t))"
    using Cons.prems(2) by (rule distinct_file_tab)
  from Cons.prems(1) have "\<forall>t \<in> set ts. url t \<noteq> None" by simp
  from Cons.IH [OF this d] obtain m' where
    r: "file_tabs h (file_tab m k t) ts = Inr m'" and
    dm: "distinct (map fst m')" and
    mem: "\<forall>k'. members_of m' k' = members_of (file_tab m k t) k'
              @ filter (\<lambda>t. domain_key h t = Inr k') ts" and
    keys: "fst ` set m' = fst ` set (file_tab m k t) \<union> {k. \<exists>t \<in> set ts. domain_key h t = Inr k}"
    by blast
  have "\<forall>k'. members_of m' k' = members_of m k' @ filter (\<lambda>t. domain_key h t = Inr k') (t # ts)"
    using mem k by (auto simp: members_of_file_tab)
  moreover have "fst ` set m' = fst ` set m \<union> {k. \<exists>u \<in> set (t # ts). domain_key h u = Inr k}"
    using keys k by (auto simp: keys_file_tab)
  ultimately show ?case using r dm k by simp
qed

lemma members_of_entry:
  "distinct (map fst m) \<Longrightarrow> (d, ms) \<in> set m \<Longrightarrow> members_of m d = ms"
  by (simp add: members_of_def Map_get_def)

lemma entry_of_members:
  "distinct (map fst m) \<Longrightarrow> d \<in> fst ` set m \<Longrightarrow> (d, members_of m d) \<in> set m"
  by (auto simp: members_of_def Map_get_def split: option.splits)


text \<open>
  For tabs that all carry a url, \<open>groupTabsByDomain\<close> returns a result: every group
  has at least 2 tabs and holds exactly the tabs filed under its key (the domain, or for a
  url that does not parse the text before the first colon), in their order; no two groups
  have the same key; every tab whose key it shares with another tab is in the group of
  that key; and the groups come by falling count.
\<close>

lemma domain_fallback_groups_by_key:
  assumes "\<forall>t \<in> set ts. url t \<noteq> None"
  shows "\<exists>gs. groupTabsByDomain h ts = Inr gs
           \<and> (\<forall>g \<in> set gs. 2 \<le> count g \<and> count g = length (dg_tabs g)
                  \<and> dg_tabs g = filter (\<lambda>t. domain_key h t = Inr (domain g)) ts)
           \<and> distinct (map domain gs)
           \<and> (\<forall>t \<in> set ts. 2 \<le> length (filter (\<lambda>u. domain_key h u = domain_key h t) ts)
                  \<longrightarrow> (\<exists>g \<in> set gs. domain_key h t = Inr (domain g)))
           \<and> sorted (map (\<lambda>g. - int (count g)) gs)"
proof -
  let ?mk = "\<lambda>(d, members). \<lparr>label = generateGroupLabel h d members, domain = d,
                               dg_tabs = members, count = length members\<rparr>"
  let ?key = "\<lambda>g. - int (count g)"
  from file_tabs_with_urls [OF assms, of "[]" h] obtain m where
    r: "file_tabs h [] ts = Inr m" and
    dm: "distinct (map fst m)" and
    mem: "\<forall>k. members_of m k = filter (\<lambda>t. domain_key h t = Inr k) ts" and
    keys: "fst ` set m = {k. \<exists>t \<in> set ts. domain_key h t = Inr k}"
    by (auto simp: members_of_def Map_get_def)
  let ?gs = "sort_key ?key (filter (\<lambda>g. count g \<ge> 2) (map ?mk m))"
  have res: "groupTabsByDomain h ts = Inr ?gs"
    by (simp add: groupTabsByDomain_def r)
  have set_gs: "set ?gs = {g \<in> ?mk ` set m. 2 \<le> count g}"
    by auto
  have a: "\<forall>g \<in> set ?gs. 2 \<le> count g \<and> count g = length (dg_tabs g)
              \<and> dg_tabs g = filter (\<lambda>t. domain_key h t = Inr (domain g)) ts"
  proof
    fix g
    assume "g \<in> set ?gs"
    then obtain d ms where e: "(d, ms) \<in> set m" and g: "g = ?mk (d, ms)" and c: "2 \<le> count g"
      unfolding set_gs by auto
    from dm e have "members_of m d = ms" by (rule members_of_entry)
    with mem have "ms = filter (\<lambda>t. domain_key h t = Inr d) ts" by simp
    with g c show "2 \<le> count g \<and> count g = length (dg_tabs g)
              \<and> dg_tabs g = filter (\<lambda>t. domain_key h t = Inr (domain g)) ts"
      by simp
  qed
  have "domain \<circ> ?mk = fst"
    by (rule ext) (simp add: split_def)
  then have "map domain (map ?mk m) = map fst m"
    by simp
  with dm have "distinct (map domain (map ?mk m))" by (simp only:)
  then have "distinct (map domain (filter (\<lambda>g. count g \<ge> 2) (map ?mk m)))"
    by (rule distinct_map_filter)
  then have b: "distinct (map domain ?gs)"
    by (simp add: distinct_map)
  have c: "\<forall>t \<in> set ts. 2 \<le> length (filter (\<lambda>u. domain_key h u = domain_key h t) ts)
              \<longrightarrow> (\<exists>g \<in> set ?gs. domain_key h t = Inr (domain g))"
  proof (intro ballI impI)
    fix t
    assume t: "t \<in> set ts"
      and two: "2 \<le> length (filter (\<lambda>u. domain_key h u = domain_key h t) ts)"
    from t assms obtain k where k: "domain_key h t = Inr k"
      using domain_key_with_url [of t h] by auto
    with t keys have "k \<in> fst ` set m" by auto
    with dm have e: "(k, members_of m k) \<in> set m" by (rule entry_of_members)
    from two k mem have "2 \<le> length (members_of m k)" by simp
    with e have "?mk (k, members_of m k) \<in> set ?gs"
      unfolding set_gs by (auto simp: image_iff intro!: bexI [of _ "(k, members_of m k)"])
    with k show "\<exists>g \<in> set ?gs. domain_key h t = Inr (domain g)"
      by (intro bexI [of _ "?mk (k, members_of m k)"]) simp_all
  qed
  have d: "sorted (map ?key ?gs)"
    by (rule sorted_sort_key)
  from res a b c d show ?thesis by blast
qed

text \<open>The seven tabs: the groups are those of github.com, of the empty host name and of the unparsable urls.\<close>

lemma mixed_tabs_groups:
  "map_sum id (map (\<lambda>g. (domain g, map tab_id (dg_tabs g), count g)))
      (groupTabsByDomain demo_host mixed_tabs)
     = Inr [(''github.com'', [1, 3], 2), ([], [2, 5], 2), (''/local/page'', [6, 7], 2)]"
  by (simp add: groupTabsByDomain_def mixed_tabs_def domain_key_def tab_domain_def mk_tab_def
      demo_host_def demo_hostname_def file_tab_def Map_get_def split_first_def)

text \<open>
  A key that is the name of a property of \<open>Object.prototype\<close> gets that property for
  its label, and the domains of the table get the literal of the table.
\<close>

lemma inherited_label:
  "generateGroupLabel h ''constructor'' ts = Inherited ''constructor''
   \<and> generateGroupLabel h ''reddit.com'' ts
       = Label (garbled [CHR 0xE2, CHR 0x80, CHR 0x99, CHR 0xC2, CHR 0xAC] @ '' Social'')
   \<and> generateGroupLabel demo_host ''zzz.io'' ts = Label (garbled [CHR 0xC5, CHR 0x92] @ '' Zzz'')"
  by (simp add: generateGroupLabel_def labels_def Object_prototype_def capitalize_def
      split_first_def demo_host_def upper_char_def)

subsection \<open>Keys and registrable domains\<close>

lemma replace_first_prefix: "prefix p s \<Longrightarrow> replace_first p [] s = drop (length p) s"
  by (cases s) auto

lemma prefix_str_includes: "prefix p s \<Longrightarrow> str_includes s p"
  by (cases s) auto

lemma replace_first_absent: "\<not> str_includes s p \<Longrightarrow> replace_first p rep s = s"
  by (induction s) auto

text \<open>
  Where \<open>www.\<close> stands in front of the host name or nowhere in it, the domain that the
  code computes is the registrable domain.
\<close>

lemma tab_domain_registrable:
  assumes "url t = Some u" and "hostname h u = Some hn"
    and "prefix ''www.'' hn \<or> \<not> str_includes hn ''www.''"
  shows "tab_domain h t = tab_registrable_domain h t"
proof (cases "prefix ''www.'' hn")
  case True
  then have "replace_first ''www.'' [] hn = drop 4 hn"
    using replace_first_prefix [of "''www.''" hn] by (simp add: eval_nat_numeral)
  with True assms(1,2) show ?thesis
    by (simp add: tab_domain_def tab_registrable_domain_def registrable_domain_def)
next
  case False
  with assms(3) have "\<not> str_includes hn ''www.''" by simp
  then have "replace_first ''www.'' [] hn = hn"
    by (rule replace_first_absent)
  with False assms(1,2) show ?thesis
    by (simp add: tab_domain_def tab_registrable_domain_def registrable_domain_def)
qed

text \<open>
  So for tabs whose urls all parse to such host names, the groups are the sets of at least
  2 tabs with one registrable domain.
\<close>

lemma domain_fallback_by_registrable_domain:
  assumes "\<forall>t \<in> set ts. \<exists>u hn. url t = Some u \<and> hostname h u = Some hn
              \<and> (prefix ''www.'' hn \<or> \<not> str_includes hn ''www.'')"
  shows "\<exists>gs. groupTabsByDomain h ts = Inr gs
           \<and> (\<forall>g \<in> set gs. 2 \<le> count g
                  \<and> dg_tabs g = filter (\<lambda>t. tab_registrable_domain h t = Some (domain g)) ts)
           \<and> distinct (map domain gs)
           \<and> (\<forall>t \<in> set ts. 2 \<le> length (filter (\<lambda>u. tab_registrable_domain h u = tab_registrable_domain h t) ts)
                  \<longrightarrow> (\<exists>g \<in> set gs. tab_registrable_domain h t = Some (domain g)))"
proof -
  have key: "domain_key h t = Inr d \<longleftrightarrow> tab_registrable_domain h t = Some d" if "t \<in> set ts" for t d
  proof -
    from that assms obtain u hn where u: "url t = Some u" and hn: "hostname h u = Some hn"
      and w: "prefix ''www.'' hn \<or> \<not> str_includes hn ''www.''" by blast
    have "tab_domain h t = tab_registrable_domain h t"
      using u hn w by (rule tab_domain_registrable)
    moreover from u hn have "tab_domain h t \<noteq> None"
      by (simp add: tab_domain_def)
    ultimately show ?thesis
      by (auto simp: domain_key_def split: option.splits)
  qed
  have keys: "(domain_key h u = domain_key h t) = (tab_registrable_domain h u = tab_registrable_domain h t)"
    if "t \<in> set ts" "u \<in> set ts" for t u
  proof -
    from that(1) assms obtain d where "domain_key h t = Inr d"
      using domain_key_with_url [of t h] by fastforce
    with key [OF that(1)] key [OF that(2)] show ?thesis
      by (metis key that(1))
  qed
  from assms have urls: "\<forall>t \<in> set ts. url t \<noteq> None" by fastforce
  from domain_fallback_groups_by_key [OF urls, of h] obtain gs where
    r: "groupTabsByDomain h ts = Inr gs" and
    a: "\<forall>g \<in> set gs. 2 \<le> count g \<and> count g = length (dg_tabs g)
            \<and> dg_tabs g = filter (\<lambda>t. domain_key h t = Inr (domain g)) ts" and
    b: "distinct (map domain gs)" and
    c: "\<forall>t \<in> set ts. 2 \<le> length (filter (\<lambda>u. domain_key h u = domain_key h t) ts)
            \<longrightarrow> (\<exists>g \<in> set gs. domain_key h t = Inr (domain g))"
    by blast
  have f1: "filter (\<lambda>t. domain_key h t = Inr d) ts = filter (\<lambda>t. tab_registrable_domain h t = Some d) ts" for d
    by (intro filter_cong refl) (rule key)
  have f2: "filter (\<lambda>u. domain_key h u = domain_key h t) ts
              = filter (\<lambda>u. tab_registrable_domain h u = tab_registrable_domain h t) ts" if "t \<in> set ts" for t
    using that by (intro filter_cong refl) (rule keys)
  have a': "\<forall>g \<in> set gs. 2 \<le> count g
                  \<and> dg_tabs g = filter (\<lambda>t. tab_registrable_domain h t = Some (domain g)) ts"
    using a unfolding f1 by blast
  have c': "\<forall>t \<in> set ts. 2 \<le> length (filter (\<lambda>u. tab_registrable_domain h u = tab_registrable_domain h t) ts)
                  \<longrightarrow> (\<exists>g \<in> set gs. tab_registrable_domain h t = Some (domain g))"
  proof (intro ballI impI)
    fix t
    assume t: "t \<in> set ts"
      and two: "2 \<le> length (filter (\<lambda>u. tab_registrable_domain h u = tab_registrable_domain h t) ts)"
    from two have "2 \<le> length (filter (\<lambda>u. domain_key h u = domain_key h t) ts)"
      by (simp add: f2 [OF t])
    with c t obtain g where "g \<in> set gs" "domain_key h t = Inr (domain g)" by blast
    with key [OF t] show "\<exists>g \<in> set gs. tab_registrable_domain h t = Some (domain g)" by blast
  qed
  from r a' b c' show ?thesis by blast
qed

text \<open>
  C9 (the domain fallback does not fail, partitions the tabs by exact registrable domain,
  and returns only groups of at least 2). The fallback returns for every list of tabs that
  carry a url, and only groups of at least 2 (\<open>domain_fallback_groups_by_key\<close>); and
  its groups are those of the registrable domains where \<open>www.\<close> stands in front of a
  host name or nowhere in it (\<open>domain_fallback_by_registrable_domain\<close>). But
  \<open>hostname.replace('www.', '')\<close> removes the first \<open>www.\<close> wherever it stands.
  Here are two tabs of the hosts foo.www.example.com and foo.example.com, which are their
  registrable domains: the code files both under foo.example.com and returns them as one
  group.
\<close>

theorem www_inside_host_merges_domains:
  "map_sum id (map (\<lambda>g. (domain g, map tab_id (dg_tabs g), count g)))
      (groupTabsByDomain demo_host www_tabs)
     = Inr [(''foo.example.com'', [1, 2], 2)]
   \<and> map (tab_registrable_domain demo_host) www_tabs
       = [Some ''foo.www.example.com'', Some ''foo.example.com'']
   \<and> map (hostname demo_host) (List.map_filter url www_tabs)
       = [Some ''foo.www.example.com'', Some ''foo.example.com'']"
  by (simp add: groupTabsByDomain_def www_tabs_def domain_key_def tab_domain_def mk_tab_def
      demo_host_def demo_hostname_def file_tab_def Map_get_def tab_registrable_domain_def
      registrable_domain_def List.map_filter_def)

section \<open>Facts about the labels\<close>

lemma find_filter_hd:
  "List.find P xs = (case filter P xs of [] \<Rightarrow> None | x # ys \<Rightarrow> Some x)"
  by (induction xs) auto

text \<open>
  The head of a stably sorted list is the first element of the original list whose key is
  the least.
\<close>

lemma hd_sort_key_first_least:
  assumes "xs \<noteq> []"
  shows "List.find (\<lambda>x. f x = Min (f ` set xs)) xs = Some (hd (sort_key f xs))"
proof -
  let ?s = "sort_key f xs" and ?m = "Min (f ` set xs)"
  from assms have ne: "?s \<noteq> []" by (metis length_0_conv length_sort)
  then obtain y ys where s: "?s = y # ys" by (cases ?s) auto
  have sorted: "sorted (map f (y # ys))"
    using sorted_sort_key [of f xs] s by simp
  have sets: "set xs = set (y # ys)"
    using set_sort [of f xs] s by simp
  have "f y = ?m"
  proof (rule Min_eqI [symmetric])
    show "finite (f ` set xs)" by simp
    show "f y \<in> f ` set xs" using sets by auto
    fix k
    assume "k \<in> f ` set xs"
    then obtain x where "x \<in> set (y # ys)" and "k = f x" using sets by auto
    with sorted show "f y \<le> k" by auto
  qed
  then have "filter (\<lambda>x. f x = ?m) (y # ys) = y # filter (\<lambda>x. f x = ?m) ys" by simp
  moreover have "filter (\<lambda>x. f x = ?m) ?s = filter (\<lambda>x. f x = ?m) xs"
    by (rule sort_key_stable)
  ultimately have "filter (\<lambda>x. f x = ?m) xs = y # filter (\<lambda>x. f x = ?m) ys"
    using s by simp
  with s show ?thesis by (simp add: find_filter_hd)
qed

lemma Min_neg_int:
  assumes "finite A" and "A \<noteq> {}"
  shows "Min ((\<lambda>n. - int n) ` A) = - int (Max A)"
proof (rule Min_eqI)
  show "finite ((\<lambda>n. - int n) ` A)" using assms by simp
  show "- int (Max A) \<in> (\<lambda>n. - int n) ` A" using assms by (simp add: image_iff)
  fix y
  assume "y \<in> (\<lambda>n. - int n) ` A"
  then show "- int (Max A) \<le> y" using assms by auto
qed

lemma category_scores_nonempty: "category_scores allText \<noteq> []"
  by (simp add: category_scores_def categories_def)

lemma best_category:
  "List.find (\<lambda>(category, score). score = Max (set (map snd (category_scores allText))))
             (category_scores allText)
     = Some (hd (sort_key (\<lambda>(category, score). - int score) (category_scores allText)))"
proof -
  let ?xs = "category_scores allText"
  let ?f = "\<lambda>(category, score). - int (score :: nat)"
  have "?f ` set ?xs = (\<lambda>n. - int n) ` set (map snd ?xs)"
    by (auto simp: image_iff split_def)
  then have "Min (?f ` set ?xs) = - int (Max (set (map snd ?xs)))"
    using category_scores_nonempty [of allText] by (simp add: Min_neg_int)
  then have e: "(\<lambda>x. ?f x = Min (?f ` set ?xs)) = (\<lambda>(category, score). score = Max (set (map snd ?xs)))"
    by (auto simp: split_def fun_eq_iff)
  show ?thesis
    using hd_sort_key_first_least [OF category_scores_nonempty, of ?f allText]
    unfolding e .
qed

lemma hd_foldl_Set_add: "hd (foldl Set_add (a # acc) xs) = a"
proof (induction xs arbitrary: acc)
  case Nil
  show ?case by simp
next
  case (Cons x xs)
  show ?case
    using Cons.IH [of acc] Cons.IH [of "acc @ [x]"] by (simp add: Set_add_def)
qed

lemma foldl_Set_add_nonempty: "foldl Set_add (a # acc) xs \<noteq> []"
proof (induction xs arbitrary: acc)
  case Nil
  show ?case by simp
next
  case (Cons x xs)
  show ?case
    using Cons.IH [of acc] Cons.IH [of "acc @ [x]"] by (simp add: Set_add_def)
qed

lemma first_domain: "take 1 (group_domains h ts) = take 1 (List.map_filter (tab_domain h) ts)"
proof (cases "List.map_filter (tab_domain h) ts")
  case Nil
  then show ?thesis by (simp add: group_domains_def)
next
  case (Cons d ds)
  have "foldl Set_add [] (d # ds) = foldl Set_add [d] ds"
    by (simp add: Set_add_def)
  moreover have "hd (foldl Set_add [d] ds) = d" by (rule hd_foldl_Set_add)
  moreover have "foldl Set_add [d] ds \<noteq> []" by (rule foldl_Set_add_nonempty)
  ultimately show ?thesis
    using Cons by (cases "foldl Set_add [d] ds") (simp_all add: group_domains_def)
qed

lemmas label_eval = extractCommonTheme_def category_scores_def categories_def RealAI_literals_def
  Simple_literals_def demo_host_def lower_char_def upper_char_def capitalize_def split_first_def

text \<open>
  C8 (the label generator). The claim is false in its second part: where no category
  scores, the label is made from the first domain of the group, not from the most common
  one. The three tabs have the domains zzz.io, qqq.io and qqq.io and titles without a
  keyword; the label is Zzz.
\<close>

theorem label_uses_first_domain:
  "group_label RealAI_literals demo_host three_tabs = globe @ '' Zzz''
   \<and> group_label Simple_literals demo_host three_tabs = globe_icon Simple_literals @ '' Zzz''
   \<and> List.map_filter (tab_domain demo_host) three_tabs = [''zzz.io'', ''qqq.io'', ''qqq.io'']
   \<and> most_common [''zzz.io'', ''qqq.io'', ''qqq.io''] = Some ''qqq.io''"
  by (simp add: group_label_def group_domains_def three_tabs_def mk_tab_def tab_domain_def
      demo_hostname_def List.map_filter_def Set_add_def or_else_def most_common_def label_eval)

text \<open>
  C8, amended: in both processors (whatever the literals) and for every host, the label is
  the emoji and name of the first category, in the order of the table, whose score is the
  highest, when that score is above zero, the score of a category being the number of its
  keywords that occur in the lower-cased titles and distinct domains joined by spaces;
  otherwise it is the globe and the capitalised part before the first dot of the first
  domain of the group, in the order of the tabs; and the placeholder label when the group
  has no domain.
\<close>

theorem label_selection:
  "extractCommonTheme lits h titles domains =
     (let scores = category_scores (toLowerCase h (join '' '' (titles @ domains)));
          top = Max (set (map snd scores))
      in if top > 0
         then (case List.find (\<lambda>(category, score). score = top) scores of
                 None \<Rightarrow> []
               | Some (category, score) \<Rightarrow>
                   (case map_of (emojis lits) category of Some e \<Rightarrow> e | None \<Rightarrow> page_icon lits)
                   @ '' '' @ category)
         else if domains \<noteq> [] then globe_icon lits @ '' '' @ capitalize h (split_first (CHR ''.'') (hd domains))
         else page_icon lits @ '' Group'')
   \<and> group_label lits h ts
       = extractCommonTheme lits h (map (\<lambda>t. or_else (title t) []) ts) (group_domains h ts)
   \<and> take 1 (group_domains h ts) = take 1 (List.map_filter (tab_domain h) ts)"
proof (intro conjI)
  define scores where "scores = category_scores (toLowerCase h (join '' '' (titles @ domains)))"
  define best where "best = hd (sort_key (\<lambda>(category, score). - int score) scores)"
  have f: "List.find (\<lambda>(category, score). score = Max (set (map snd scores))) scores = Some best"
    unfolding scores_def best_def by (rule best_category)
  then have "snd best = Max (set (map snd scores))"
    by (auto simp: find_Some_iff split_def)
  then have top: "Max (set (map snd scores)) = snd best" by simp
  from f have f': "List.find (\<lambda>(category, score). score = snd best) scores = Some best"
    unfolding top .
  have "extractCommonTheme lits h titles domains =
          (if snd best > 0
           then (case map_of (emojis lits) (fst best) of Some e \<Rightarrow> e | None \<Rightarrow> page_icon lits)
                @ '' '' @ fst best
           else if length domains > 0
           then globe_icon lits @ '' '' @ capitalize h (split_first (CHR ''.'') (hd domains))
           else page_icon lits @ '' Group'')"
    unfolding extractCommonTheme_def Let_def scores_def best_def by (rule refl)
  also have "\<dots> =
     (let top = Max (set (map snd scores))
      in if top > 0
         then (case List.find (\<lambda>(category, score). score = top) scores of
                 None \<Rightarrow> []
               | Some (category, score) \<Rightarrow>
                   (case map_of (emojis lits) category of Some e \<Rightarrow> e | None \<Rightarrow> page_icon lits)
                   @ '' '' @ category)
         else if domains \<noteq> [] then globe_icon lits @ '' '' @ capitalize h (split_first (CHR ''.'') (hd domains))
         else page_icon lits @ '' Group'')"
    unfolding Let_def top f' by (cases best) simp
  finally show "extractCommonTheme lits h titles domains =
     (let scores = category_scores (toLowerCase h (join '' '' (titles @ domains)));
          top = Max (set (map snd scores))
      in if top > 0
         then (case List.find (\<lambda>(category, score). score = top) scores of
                 None \<Rightarrow> []
               | Some (category, score) \<Rightarrow>
                   (case map_of (emojis lits) category of Some e \<Rightarrow> e | None \<Rightarrow> page_icon lits)
                   @ '' '' @ category)
         else if domains \<noteq> [] then globe_icon lits @ '' '' @ capitalize h (split_first (CHR ''.'') (hd domains))
         else page_icon lits @ '' Group'')"
    unfolding scores_def Let_def .
  show "group_label lits h ts
       = extractCommonTheme lits h (map (\<lambda>t. or_else (title t) []) ts) (group_domains h ts)"
    by (simp add: group_label_def)
  show "take 1 (group_domains h ts) = take 1 (List.map_filter (tab_domain h) ts)"
    by (rule first_domain)
qed

text \<open>The scenario of the specification: the two framework tabs get a development label.\<close>

lemma framework_tabs_label:
  "extractCommonTheme RealAI_literals demo_host
      [''React hooks tutorial'', ''Vue composition API guide''] [''github.com'', ''vuejs.org'']
     = emoji (CHR 0x92) (CHR 0xBB) @ '' Development''"
  by (simp add: label_eval)


end
